theory Spec2Isabelle
  imports Complex_Main
begin

section \<open>JavaScript values\<close>

text \<open>
  A JavaScript number is a double. The model keeps the special values apart and embeds
  every finite double as the real number it denotes (the sign of zero is not kept).
  \<open>Math.min\<close> and \<open>Math.max\<close> return one of their arguments, so they are exact on
  this embedding; the quotient of \<open>js_div\<close> is the exact one (the rounding of the
  quotient to the nearest double is not modelled).
\<close>

datatype jsnum = NaN | NegInf | Fin real | PosInf

fun js_lt :: "jsnum \<Rightarrow> jsnum \<Rightarrow> bool" where
  "js_lt NaN _ = False"
| "js_lt _ NaN = False"
| "js_lt NegInf NegInf = False"
| "js_lt NegInf _ = True"
| "js_lt (Fin a) NegInf = False"
| "js_lt (Fin a) (Fin b) = (a < b)"
| "js_lt (Fin a) PosInf = True"
| "js_lt PosInf _ = False"

fun Math_min :: "jsnum \<Rightarrow> jsnum \<Rightarrow> jsnum" where
  "Math_min NaN _ = NaN"
| "Math_min _ NaN = NaN"
| "Math_min a b = (if js_lt b a then b else a)"

fun Math_max :: "jsnum \<Rightarrow> jsnum \<Rightarrow> jsnum" where
  "Math_max NaN _ = NaN"
| "Math_max _ NaN = NaN"
| "Math_max a b = (if js_lt a b then b else a)"

fun js_div :: "jsnum \<Rightarrow> jsnum \<Rightarrow> jsnum" where
  "js_div NaN _ = NaN"
| "js_div _ NaN = NaN"
| "js_div (Fin a) (Fin b) =
     (if b \<noteq> 0 then Fin (a / b)
      else if a = 0 then NaN else if 0 < a then PosInf else NegInf)"
| "js_div (Fin a) _ = Fin 0"
| "js_div PosInf (Fin b) = (if b < 0 then NegInf else PosInf)"
| "js_div NegInf (Fin b) = (if b < 0 then PosInf else NegInf)"
| "js_div _ _ = NaN"

text \<open>
  The spec's \<open>clamp(v, lo, hi)\<close>: \<open>lo\<close> below \<open>lo\<close>, \<open>hi\<close> above \<open>hi\<close>, \<open>v\<close>
  otherwise (with the comparisons of JavaScript numbers).
\<close>

definition clamp :: "jsnum \<Rightarrow> jsnum \<Rightarrow> jsnum \<Rightarrow> jsnum" where
  "clamp v lo hi = (if js_lt v lo then lo else if js_lt hi v then hi else v)"

text \<open>
  What \<open>configurationService.getValue\<close> can hand back: the type annotation
  \<open>getValue<number>\<close> is not checked at run time, so any JSON-like value can arrive.
  A key that is not configured reads as \<open>undefined\<close>.
\<close>

datatype jsvalue =
    JUndefined
  | JNull
  | JBoolean bool
  | JNumber jsnum
  | JString string
  | JObject

text \<open>\<open>typeof v === 'number'\<close>\<close>

fun typeof_number :: "jsvalue \<Rightarrow> bool" where
  "typeof_number (JNumber _) = True"
| "typeof_number _ = False"

section \<open>The catalogue: \<open>Sound\<close> and \<open>AudioCue\<close>\<close>

text \<open>
  Both classes have a private constructor, so their only instances are the static
  members. Each instance is one constructor of a datatype, and equality of the datatype
  is the reference equality of the objects.
\<close>

datatype Sound =
    Sound_error
  | Sound_warning
  | Sound_foldedArea
  | Sound_break
  | Sound_quickFixes
  | Sound_taskCompleted
  | Sound_taskFailed
  | Sound_terminalBell
  | Sound_diffLineInserted
  | Sound_diffLineDeleted

fun fileName :: "Sound \<Rightarrow> string" where
  "fileName Sound_error = ''error.mp3''"
| "fileName Sound_warning = ''warning.mp3''"
| "fileName Sound_foldedArea = ''foldedAreas.mp3''"
| "fileName Sound_break = ''break.mp3''"
| "fileName Sound_quickFixes = ''quickFixes.mp3''"
| "fileName Sound_taskCompleted = ''taskCompleted.mp3''"
| "fileName Sound_taskFailed = ''taskFailed.mp3''"
| "fileName Sound_terminalBell = ''terminalBell.mp3''"
| "fileName Sound_diffLineInserted = ''diffLineInserted.mp3''"
| "fileName Sound_diffLineDeleted = ''diffLineDeleted.mp3''"

datatype AudioCue =
    AudioCue_error
  | AudioCue_warning
  | AudioCue_foldedArea
  | AudioCue_break
  | AudioCue_inlineSuggestion
  | AudioCue_terminalQuickFix
  | AudioCue_onDebugBreak
  | AudioCue_noInlayHints
  | AudioCue_taskCompleted
  | AudioCue_taskFailed
  | AudioCue_terminalBell
  | AudioCue_diffLineInserted
  | AudioCue_diffLineDeleted

fun sound :: "AudioCue \<Rightarrow> Sound" where
  "sound AudioCue_error = Sound_error"
| "sound AudioCue_warning = Sound_warning"
| "sound AudioCue_foldedArea = Sound_foldedArea"
| "sound AudioCue_break = Sound_break"
| "sound AudioCue_inlineSuggestion = Sound_quickFixes"
| "sound AudioCue_terminalQuickFix = Sound_quickFixes"
| "sound AudioCue_onDebugBreak = Sound_break"
| "sound AudioCue_noInlayHints = Sound_error"
| "sound AudioCue_taskCompleted = Sound_taskCompleted"
| "sound AudioCue_taskFailed = Sound_taskFailed"
| "sound AudioCue_terminalBell = Sound_terminalBell"
| "sound AudioCue_diffLineInserted = Sound_diffLineInserted"
| "sound AudioCue_diffLineDeleted = Sound_diffLineDeleted"

fun settingsKey :: "AudioCue \<Rightarrow> string" where
  "settingsKey AudioCue_error = ''audioCues.lineHasError''"
| "settingsKey AudioCue_warning = ''audioCues.lineHasWarning''"
| "settingsKey AudioCue_foldedArea = ''audioCues.lineHasFoldedArea''"
| "settingsKey AudioCue_break = ''audioCues.lineHasBreakpoint''"
| "settingsKey AudioCue_inlineSuggestion = ''audioCues.lineHasInlineSuggestion''"
| "settingsKey AudioCue_terminalQuickFix = ''audioCues.terminalQuickFix''"
| "settingsKey AudioCue_onDebugBreak = ''audioCues.onDebugBreak''"
| "settingsKey AudioCue_noInlayHints = ''audioCues.noInlayHints''"
| "settingsKey AudioCue_taskCompleted = ''audioCues.taskCompleted''"
| "settingsKey AudioCue_taskFailed = ''audioCues.taskFailed''"
| "settingsKey AudioCue_terminalBell = ''audioCues.terminalBell''"
| "settingsKey AudioCue_diffLineInserted = ''audioCues.diffLineInserted''"
| "settingsKey AudioCue_diffLineDeleted = ''audioCues.diffLineDeleted''"

section \<open>JavaScript \<open>Set\<close>\<close>

text \<open>
  A \<open>Set\<close> keeps its members in insertion order and holds each at most once: a list
  without duplicates. \<open>add\<close> of a member changes nothing, \<open>delete\<close> removes
  the member.
\<close>

definition Set_has :: "'a \<Rightarrow> 'a list \<Rightarrow> bool" where
  "Set_has x xs = (x \<in> set xs)"

definition Set_add :: "'a \<Rightarrow> 'a list \<Rightarrow> 'a list" where
  "Set_add x xs = (if x \<in> set xs then xs else xs @ [x])"

definition Set_delete :: "'a \<Rightarrow> 'a list \<Rightarrow> 'a list" where
  "Set_delete x xs = removeAll x xs"

text \<open>\<open>new Set(array)\<close>: the elements are added in the order of the array.\<close>

definition Set_of :: "'a list \<Rightarrow> 'a list" where
  "Set_of xs = foldl (\<lambda>s x. Set_add x s) [] xs"

section \<open>Enablement of a cue\<close>

text \<open>
  The function handed to \<open>derived\<close> reads observables through its \<open>reader\<close>.
  The model returns, beside the boolean, the observables it has read, in the order of the
  reads: the short-circuit operators of the source decide which reads happen.
\<close>

datatype read =
    Read_settingObservable string
  | Read_screenReaderAttached
  | Read_obsoleteAudioCuesEnabled

text \<open>
  \<open>setting === 'on' || (setting === 'auto' && this.screenReaderAttached.read(reader))\<close>,
  the condition of both \<open>if\<close> statements.
\<close>

definition on_or_auto :: "jsvalue \<Rightarrow> bool \<Rightarrow> bool \<times> read list" where
  "on_or_auto setting isScreenReaderOptimized =
     (if setting = JString ''on'' then (True, [])
      else if setting = JString ''auto'' then (isScreenReaderOptimized, [Read_screenReaderAttached])
      else (False, []))"

definition audio_cue_enabled :: "AudioCue \<Rightarrow> (string \<Rightarrow> jsvalue) \<Rightarrow> bool \<Rightarrow> bool \<times> read list" where
  "audio_cue_enabled cue getValue isScreenReaderOptimized =
     (let setting = getValue (settingsKey cue);
          (b1, r1) = on_or_auto setting isScreenReaderOptimized;
          reads1 = Read_settingObservable (settingsKey cue) # r1
      in if b1 then (True, reads1)
         else
           let obsoleteSetting = getValue ''audioCues.enabled'';
               (b2, r2) = on_or_auto obsoleteSetting isScreenReaderOptimized;
               reads2 = reads1 @ Read_obsoleteAudioCuesEnabled # r2
           in if b2 then (True, reads2) else (False, reads2))"

section \<open>The cache\<close>

text \<open>
  \<open>Cache.get\<close>: the \<open>Map\<close> is a partial function on the keys (its keys are compared by
  identity, which is the equality of the key type here). The factory \<open>getValue\<close> may
  allocate objects, so it threads a state \<open>'s\<close>.
\<close>

definition Cache_get ::
  "('k \<Rightarrow> 's \<Rightarrow> 'v \<times> 's) \<Rightarrow> 'k \<Rightarrow> ('k \<rightharpoonup> 'v) \<Rightarrow> 's \<Rightarrow> 'v \<times> ('k \<rightharpoonup> 'v) \<times> 's" where
  "Cache_get getValue arg m s =
     (case m arg of
        Some v \<Rightarrow> (v, m, s)
      | None \<Rightarrow> (let (v, s') = getValue arg s in (v, m(arg \<mapsto> v), s')))"

section \<open>The service\<close>

text \<open>
  A derived observable is an object: \<open>obs_id\<close> is its identity, \<open>obs_cue\<close> the cue
  its function has captured.
\<close>

record observable =
  obs_id :: nat
  obs_cue :: AudioCue

datatype media_state = Loading | Playing | Finished | Failed

datatype promise_state = Pending | Fulfilled | Rejected string

text \<open>
  One record for each run of \<open>playSound\<close> that reaches its \<open>await\<close>: the \<open>Audio\<close>
  element it has created (\<open>pb_url\<close>, \<open>pb_volume\<close>, the sound \<open>pb_sound\<close> its
  \<open>ended\<close> listener has captured, the state \<open>pb_media\<close> of the media element, and
  whether \<open>audio.remove()\<close> has run) and the call itself, suspended at its \<open>await\<close>:
  the time \<open>pb_deadline\<close> at which the timer of \<open>raceTimeout\<close> fires and the state
  \<open>pb_promise\<close> of the promise that \<open>playSound\<close> has returned.
\<close>

record Playback =
  pb_sound :: Sound
  pb_url :: string
  pb_volume :: jsnum
  pb_media :: media_state
  pb_removed :: bool
  pb_deadline :: nat
  pb_promise :: promise_state

text \<open>
  The service with what it reads from its collaborators: \<open>configuration\<close> is the state
  of the configuration service, \<open>screenReaderOptimized\<close> that of the accessibility
  service, \<open>clock\<close> the time in milliseconds, \<open>console\<close> the lines of
  \<open>console.error\<close>. \<open>getValueCalls\<close> is a ghost field: the arguments of the calls of
  the factory of \<open>isEnabledCache\<close>, in order. \<open>objects\<close> counts the observables
  allocated.
\<close>

record AudioCueService =
  configuration :: "string \<Rightarrow> jsvalue"
  screenReaderOptimized :: bool
  playingSounds :: "Sound list"
  isEnabledCache :: "AudioCue \<rightharpoonup> observable"
  objects :: nat
  getValueCalls :: "AudioCue list"
  playbacks :: "Playback list"
  console :: "string list"
  clock :: nat

definition AudioCueService_new :: "(string \<Rightarrow> jsvalue) \<Rightarrow> bool \<Rightarrow> AudioCueService" where
  "AudioCueService_new config screenReader =
     \<lparr>configuration = config, screenReaderOptimized = screenReader, playingSounds = [],
      isEnabledCache = Map.empty, objects = 2, getValueCalls = [], playbacks = [],
      console = [], clock = 0\<rparr>"

subsection \<open>\<open>isEnabled\<close>\<close>

text \<open>
  The factory of \<open>isEnabledCache\<close> allocates \<open>settingObservable\<close> and the derived
  observable, and returns the latter.
\<close>

definition isEnabledCache_getValue :: "AudioCue \<Rightarrow> AudioCueService \<Rightarrow> observable \<times> AudioCueService" where
  "isEnabledCache_getValue cue st =
     (\<lparr>obs_id = objects st + 1, obs_cue = cue\<rparr>,
      st\<lparr>objects := objects st + 2, getValueCalls := getValueCalls st @ [cue]\<rparr>)"

definition isEnabled :: "AudioCue \<Rightarrow> AudioCueService \<Rightarrow> observable \<times> AudioCueService" where
  "isEnabled cue st =
     (let (v, m, st') = Cache_get isEnabledCache_getValue cue (isEnabledCache st) st
      in (v, st'\<lparr>isEnabledCache := m\<rparr>))"

text \<open>
  Modelled from the spec: \<open>vs/base/common/observable\<close> is not among the sources. By the
  spec (4.1) a read of an observable always reflects the latest external state, so
  \<open>get\<close> on a derived observable runs its function on the configuration and the
  screen-reader state of the moment of the read.
\<close>

definition observable_get :: "observable \<Rightarrow> AudioCueService \<Rightarrow> bool \<times> read list" where
  "observable_get obs st =
     audio_cue_enabled (obs_cue obs) (configuration st) (screenReaderOptimized st)"

text \<open>\<open>this.isEnabled(cue).get()\<close>\<close>

definition isEnabled_get :: "AudioCue \<Rightarrow> AudioCueService \<Rightarrow> (bool \<times> read list) \<times> AudioCueService" where
  "isEnabled_get cue st =
     (let (obs, st') = isEnabled cue st in (observable_get obs st', st'))"

subsection \<open>\<open>getVolumeInPercent\<close> and \<open>playSound\<close>\<close>

definition getVolumeInPercent :: "AudioCueService \<Rightarrow> jsnum" where
  "getVolumeInPercent st =
     (let volume = configuration st ''audioCues.volume''
      in if \<not> typeof_number volume then Fin 50
         else (case volume of
                 JNumber v \<Rightarrow> Math_max (Math_min v (Fin 100)) (Fin 0)
               | _ \<Rightarrow> Fin 50))"

text \<open>
  The platform: the \<open>volume\<close> attribute of a media element is not among the sources.
  By the HTML standard its setter takes a finite number between 0 and 1; it throws a
  \<open>TypeError\<close> for a value that is not finite (\<open>NaN\<close> or an infinity) and an
  \<open>IndexSizeError\<close> for a number outside the range. \<open>Some e\<close> is the exception
  thrown, \<open>None\<close> an assignment that went through.
\<close>

definition set_volume :: "jsnum \<Rightarrow> string option" where
  "set_volume v =
     (case v of
        Fin x \<Rightarrow> if 0 \<le> x \<and> x \<le> 1 then None else Some ''IndexSizeError''
      | _ \<Rightarrow> Some ''TypeError'')"

text \<open>
  How a call of an \<open>async\<close> method comes back: \<open>Returned\<close> has run to its end
  without suspending (its promise is fulfilled); \<open>Awaiting i\<close> is suspended at
  \<open>await raceTimeout(audio.play(), 1000)\<close> on the playback \<open>i\<close>; \<open>Threw e\<close> has
  thrown \<open>e\<close> before any \<open>await\<close> (its promise is rejected with \<open>e\<close>).
\<close>

datatype call = Returned | Awaiting nat | Threw string

text \<open>
  \<open>playSound\<close> up to its \<open>await\<close>. The guard returns; otherwise the sound is added
  to \<open>playingSounds\<close> (line 70) and the element is created. The assignment to
  \<open>audio.volume\<close> (line 76) stands before the \<open>try\<close>: when the setter throws, the
  call ends there, with the sound registered and nothing else done (no listener, no
  \<open>audio.play()\<close>, no \<open>audio.remove()\<close>). The path given to
  \<open>FileAccess.asBrowserUri\<close> stands for the URL.
\<close>

definition playSound :: "Sound \<Rightarrow> bool \<Rightarrow> AudioCueService \<Rightarrow> call \<times> AudioCueService" where
  "playSound s allowManyInParallel st =
     (if \<not> allowManyInParallel \<and> Set_has s (playingSounds st) then (Returned, st)
      else
        let st1 = st\<lparr>playingSounds := Set_add s (playingSounds st)\<rparr>;
            volume = js_div (getVolumeInPercent st) (Fin 100)
        in case set_volume volume of
             Some e \<Rightarrow> (Threw e, st1)
           | None \<Rightarrow>
               let audio = \<lparr>pb_sound = s,
                            pb_url = ''vs/platform/audioCues/common/media/'' @ fileName s,
                            pb_volume = volume,
                            pb_media = Loading, pb_removed = False,
                            pb_deadline = clock st + 1000, pb_promise = Pending\<rparr>
               in (Awaiting (length (playbacks st)),
                   st1\<lparr>playbacks := playbacks st @ [audio]\<rparr>))"

text \<open>
  The rest of \<open>playSound\<close>, from the \<open>await\<close> on. The awaited promise has either
  rejected (\<open>Some e\<close>: the \<open>catch\<close> logs \<open>e\<close>) or not (\<open>None\<close>); then the
  \<open>finally\<close> block runs \<open>audio.remove()\<close> and the function returns, which fulfils its
  promise.
\<close>

definition finally_return :: "Playback \<Rightarrow> Playback" where
  "finally_return p = p\<lparr>pb_removed := True, pb_promise := Fulfilled\<rparr>"

definition after_await :: "nat \<Rightarrow> string option \<Rightarrow> AudioCueService \<Rightarrow> AudioCueService" where
  "after_await i thrown st =
     (let st1 = (case thrown of
                   Some e \<Rightarrow> st\<lparr>console := console st @ [''Error while playing sound '' @ e]\<rparr>
                 | None \<Rightarrow> st)
      in st1\<lparr>playbacks := (playbacks st1)[i := finally_return (playbacks st1 ! i)]\<rparr>)"

subsection \<open>\<open>playAudioCue\<close> and \<open>playAudioCues\<close>\<close>

definition playAudioCue :: "AudioCue \<Rightarrow> bool \<Rightarrow> AudioCueService \<Rightarrow> call \<times> AudioCueService" where
  "playAudioCue cue allowManyInParallel st =
     (let (e, st1) = isEnabled_get cue st
      in if fst e then playSound (sound cue) allowManyInParallel st1 else (Returned, st1))"

text \<open>\<open>cues.filter(cue => this.isEnabled(cue).get())\<close>\<close>

fun filter_isEnabled :: "AudioCue list \<Rightarrow> AudioCueService \<Rightarrow> AudioCue list \<times> AudioCueService" where
  "filter_isEnabled [] st = ([], st)"
| "filter_isEnabled (cue # cues) st =
     (let (e, st1) = isEnabled_get cue st;
          (rest, st2) = filter_isEnabled cues st1
      in (if fst e then cue # rest else rest, st2))"

text \<open>\<open>Array.from(sounds).map(sound => this.playSound(sound))\<close>: every call runs up to
  its \<open>await\<close> before the next one starts; a call that throws has rejected its own
  promise, and the next one starts all the same.\<close>

fun map_playSound :: "Sound list \<Rightarrow> AudioCueService \<Rightarrow> call list \<times> AudioCueService" where
  "map_playSound [] st = ([], st)"
| "map_playSound (s # ss) st =
     (let (r, st1) = playSound s False st;
          (rs, st2) = map_playSound ss st1
      in (r # rs, st2))"

definition playAudioCues :: "AudioCue list \<Rightarrow> AudioCueService \<Rightarrow> call list \<times> AudioCueService" where
  "playAudioCues cues st =
     (let (enabled, st1) = filter_isEnabled cues st;
          sounds = Set_of (map sound enabled)
      in map_playSound sounds st1)"

text \<open>The state of the promise that a call has returned.\<close>

definition promise_of :: "call \<Rightarrow> AudioCueService \<Rightarrow> promise_state" where
  "promise_of r st =
     (case r of
        Returned \<Rightarrow> Fulfilled
      | Awaiting i \<Rightarrow> pb_promise (playbacks st ! i)
      | Threw e \<Rightarrow> Rejected e)"

text \<open>\<open>Promise.all\<close> over the promises of the calls: fulfilled once all of them are,
  rejected with the first rejection.\<close>

fun Promise_all :: "call list \<Rightarrow> AudioCueService \<Rightarrow> promise_state" where
  "Promise_all [] st = Fulfilled"
| "Promise_all (r # rs) st =
     (case promise_of r st of
        Rejected e \<Rightarrow> Rejected e
      | Pending \<Rightarrow> (case Promise_all rs st of Rejected e \<Rightarrow> Rejected e | _ \<Rightarrow> Pending)
      | Fulfilled \<Rightarrow> Promise_all rs st)"

section \<open>The environment: events and calls\<close>

text \<open>
  What can happen to a service: a call of one of its methods, a change of the
  configuration or of the screen-reader state, and the events of the platform.
  \<^item> \<open>PlayFulfilled i\<close>: the promise of \<open>audio.play()\<close> of playback \<open>i\<close> is fulfilled
    (the playback has begun); \<open>PlayRejected i e\<close>: it is rejected with \<open>e\<close> (loading,
    decoding or the hardware has failed). Both can happen only while the element is
    loading.
  \<^item> \<open>Ended i\<close>: the \<open>ended\<close> event of the element, which a playing element fires at
    its end.
  \<^item> \<open>Advance d\<close>: \<open>d\<close> milliseconds pass.

  Modelled from the spec: \<open>raceTimeout\<close> (\<open>vs/base/common/async\<close>) is not among the
  sources. By the spec (4.4, step 4) the playback is raced against a timeout of 1000 ms;
  when the timeout elapses first the wait is abandoned and the playback request is not
  cancelled; a rejection that comes first is an error of step 4. So a pending call
  resumes without an exception when the clock reaches its deadline, and the media
  element is left as it is.
\<close>

datatype action =
    Call_isEnabled AudioCue
  | Call_playSound Sound bool
  | Call_playAudioCue AudioCue bool
  | Call_playAudioCues "AudioCue list"
  | Update_configuration string jsvalue
  | Update_screenReader bool
  | PlayFulfilled nat
  | PlayRejected nat string
  | Ended nat
  | Advance nat

definition timer_fires :: "nat \<Rightarrow> Playback \<Rightarrow> Playback" where
  "timer_fires t p =
     (if pb_promise p = Pending \<and> pb_deadline p \<le> t then finally_return p else p)"

fun step :: "action \<Rightarrow> AudioCueService \<Rightarrow> AudioCueService" where
  "step (Call_isEnabled cue) st = snd (isEnabled cue st)"
| "step (Call_playSound s allowManyInParallel) st = snd (playSound s allowManyInParallel st)"
| "step (Call_playAudioCue cue allowManyInParallel) st = snd (playAudioCue cue allowManyInParallel st)"
| "step (Call_playAudioCues cues) st = snd (playAudioCues cues st)"
| "step (Update_configuration key v) st = st\<lparr>configuration := (configuration st)(key := v)\<rparr>"
| "step (Update_screenReader b) st = st\<lparr>screenReaderOptimized := b\<rparr>"
| "step (PlayFulfilled i) st =
     (if i < length (playbacks st) \<and> pb_media (playbacks st ! i) = Loading then
        let st1 = st\<lparr>playbacks := (playbacks st)[i := (playbacks st ! i)\<lparr>pb_media := Playing\<rparr>]\<rparr>
        in if pb_promise (playbacks st ! i) = Pending then after_await i None st1 else st1
      else st)"
| "step (PlayRejected i e) st =
     (if i < length (playbacks st) \<and> pb_media (playbacks st ! i) = Loading then
        let st1 = st\<lparr>playbacks := (playbacks st)[i := (playbacks st ! i)\<lparr>pb_media := Failed\<rparr>]\<rparr>
        in if pb_promise (playbacks st ! i) = Pending then after_await i (Some e) st1 else st1
      else st)"
| "step (Ended i) st =
     (if i < length (playbacks st) \<and> pb_media (playbacks st ! i) = Playing then
        st\<lparr>playbacks := (playbacks st)[i := (playbacks st ! i)\<lparr>pb_media := Finished\<rparr>],
           playingSounds := Set_delete (pb_sound (playbacks st ! i)) (playingSounds st)\<rparr>
      else st)"
| "step (Advance d) st =
     st\<lparr>clock := clock st + d,
        playbacks := map (timer_fires (clock st + d)) (playbacks st)\<rparr>"

definition run :: "action list \<Rightarrow> AudioCueService \<Rightarrow> AudioCueService" where
  "run as st = fold step as st"

section \<open>Invariants and auxiliary notions\<close>

text \<open>Every entry of \<open>isEnabledCache\<close> is an observable of its key.\<close>

definition cache_ok :: "AudioCueService \<Rightarrow> bool" where
  "cache_ok st = (\<forall>c d. isEnabledCache st c = Some d \<longrightarrow> obs_cue d = c)"

text \<open>\<open>playingSounds\<close> is a \<open>Set\<close>: no member twice.\<close>

definition registry_ok :: "AudioCueService \<Rightarrow> bool" where
  "registry_ok st = distinct (playingSounds st)"

text \<open>The actions that are events of the platform, as opposed to calls and updates.\<close>

fun is_event :: "action \<Rightarrow> bool" where
  "is_event (PlayFulfilled i) = True"
| "is_event (PlayRejected i e) = True"
| "is_event (Ended i) = True"
| "is_event (Advance d) = True"
| "is_event _ = False"

text \<open>
  No promise of \<open>playSound\<close> is rejected; one that is still pending has its timer
  ahead and its element loading.
\<close>

definition promises_ok :: "AudioCueService \<Rightarrow> bool" where
  "promises_ok st =
     (\<forall>i < length (playbacks st).
        (\<forall>e. pb_promise (playbacks st ! i) \<noteq> Rejected e) \<and>
        (pb_promise (playbacks st ! i) = Pending \<longrightarrow>
           clock st < pb_deadline (playbacks st ! i) \<and> pb_media (playbacks st ! i) = Loading))"

text \<open>A playback as \<open>playSound\<close> creates it at time \<open>t\<close>.\<close>

definition fresh :: "nat \<Rightarrow> Playback \<Rightarrow> bool" where
  "fresh t p = (pb_promise p = Pending \<and> pb_media p = Loading \<and> \<not> pb_removed p \<and>
                pb_deadline p = t + 1000)"

text \<open>
  The playback \<open>i\<close> whose \<open>audio.play()\<close> has not settled: the element is loading,
  and its call is pending until the clock reaches the deadline \<open>D\<close> and fulfilled from
  then on.
\<close>

definition unsettled :: "nat \<Rightarrow> nat \<Rightarrow> AudioCueService \<Rightarrow> bool" where
  "unsettled i D st =
     (i < length (playbacks st) \<and>
      pb_media (playbacks st ! i) = Loading \<and>
      pb_deadline (playbacks st ! i) = D \<and>
      pb_promise (playbacks st ! i) = (if D \<le> clock st then Fulfilled else Pending))"

text \<open>
  The factory of \<open>isEnabledCache\<close> has run once for every cue in the cache and never
  for any other.
\<close>

definition calls_ok :: "AudioCueService \<Rightarrow> bool" where
  "calls_ok st =
     (\<forall>c. count_list (getValueCalls st) c = (if isEnabledCache st c = None then 0 else 1))"

text \<open>The definitions a concrete run is evaluated with.\<close>

lemmas exec_defs = run_def AudioCueService_new_def isEnabled_def Cache_get_def
  isEnabledCache_getValue_def isEnabled_get_def observable_get_def audio_cue_enabled_def
  on_or_auto_def getVolumeInPercent_def set_volume_def playSound_def Set_has_def Set_add_def Set_delete_def
  Set_of_def finally_return_def after_await_def playAudioCue_def playAudioCues_def
  promise_of_def timer_fires_def Let_def

section \<open>Runs of the service\<close>

lemma run_Nil: "run [] st = st" by (simp add: run_def)
lemma run_Cons: "run (a # as) st = run as (step a st)" by (simp add: run_def)
lemma run_append: "run (as @ bs) st = run bs (run as st)" by (simp add: run_def)

lemma run_invariant:
  assumes "P st" and "\<And>a s. P s \<Longrightarrow> P (step a s)"
  shows "P (run as st)"
  using assms(1)
proof (induction as arbitrary: st)
  case Nil
  then show ?case by (simp add: run_Nil)
next
  case (Cons a as)
  then show ?case by (simp add: run_Cons assms(2))
qed

subsection \<open>What each method changes\<close>

lemma isEnabled_frame:
  "configuration (snd (isEnabled c st)) = configuration st"
  "screenReaderOptimized (snd (isEnabled c st)) = screenReaderOptimized st"
  "playingSounds (snd (isEnabled c st)) = playingSounds st"
  "playbacks (snd (isEnabled c st)) = playbacks st"
  "console (snd (isEnabled c st)) = console st"
  "clock (snd (isEnabled c st)) = clock st"
  by (simp_all add: isEnabled_def Cache_get_def isEnabledCache_getValue_def split: option.splits)

lemma isEnabled_cache:
  "isEnabledCache (snd (isEnabled c st)) =
     (case isEnabledCache st c of
        Some d \<Rightarrow> isEnabledCache st
      | None \<Rightarrow> (isEnabledCache st)(c \<mapsto> \<lparr>obs_id = objects st + 1, obs_cue = c\<rparr>))"
  by (simp add: isEnabled_def Cache_get_def isEnabledCache_getValue_def split: option.splits)

lemma isEnabled_result:
  "isEnabledCache (snd (isEnabled c st)) c = Some (fst (isEnabled c st))"
  by (simp add: isEnabled_def Cache_get_def isEnabledCache_getValue_def split: option.splits)

lemma isEnabled_get_snd: "snd (isEnabled_get c st) = snd (isEnabled c st)"
  by (simp add: isEnabled_get_def split: prod.splits)

lemma playSound_frame:
  "configuration (snd (playSound s a st)) = configuration st"
  "screenReaderOptimized (snd (playSound s a st)) = screenReaderOptimized st"
  "isEnabledCache (snd (playSound s a st)) = isEnabledCache st"
  "objects (snd (playSound s a st)) = objects st"
  "getValueCalls (snd (playSound s a st)) = getValueCalls st"
  "console (snd (playSound s a st)) = console st"
  "clock (snd (playSound s a st)) = clock st"
  by (simp_all add: playSound_def Let_def split: option.splits)

lemma map_playSound_snd:
  "snd (map_playSound (s # ss) st) = snd (map_playSound ss (snd (playSound s False st)))"
  by (simp split: prod.splits)

lemma filter_isEnabled_snd:
  "snd (filter_isEnabled (c # cs) st) = snd (filter_isEnabled cs (snd (isEnabled c st)))"
  by (simp add: isEnabled_get_def split: prod.splits)

lemma playAudioCues_snd:
  "snd (playAudioCues cs st) =
     snd (map_playSound (Set_of (map sound (fst (filter_isEnabled cs st)))) (snd (filter_isEnabled cs st)))"
  by (simp add: playAudioCues_def split: prod.splits)

lemma playAudioCue_snd:
  "snd (playAudioCue c a st) =
     (if fst (fst (isEnabled_get c st)) then snd (playSound (sound c) a (snd (isEnabled c st)))
      else snd (isEnabled c st))"
  by (simp add: playAudioCue_def isEnabled_get_def split: prod.splits)

lemma map_playSound_frame:
  "configuration (snd (map_playSound ss st)) = configuration st"
  "screenReaderOptimized (snd (map_playSound ss st)) = screenReaderOptimized st"
  "isEnabledCache (snd (map_playSound ss st)) = isEnabledCache st"
  "objects (snd (map_playSound ss st)) = objects st"
  "getValueCalls (snd (map_playSound ss st)) = getValueCalls st"
  "console (snd (map_playSound ss st)) = console st"
  "clock (snd (map_playSound ss st)) = clock st"
  by (induction ss arbitrary: st; simp add: playSound_frame map_playSound_snd del: map_playSound.simps(2))+

lemma filter_isEnabled_frame:
  "configuration (snd (filter_isEnabled cs st)) = configuration st"
  "screenReaderOptimized (snd (filter_isEnabled cs st)) = screenReaderOptimized st"
  "playingSounds (snd (filter_isEnabled cs st)) = playingSounds st"
  "playbacks (snd (filter_isEnabled cs st)) = playbacks st"
  "console (snd (filter_isEnabled cs st)) = console st"
  "clock (snd (filter_isEnabled cs st)) = clock st"
  by (induction cs arbitrary: st; simp add: isEnabled_frame filter_isEnabled_snd del: filter_isEnabled.simps(2))+

subsection \<open>The cache maps every cue to an observable of that cue\<close>

lemma cache_ok_isEnabled: "cache_ok st \<Longrightarrow> cache_ok (snd (isEnabled c st))"
  by (auto simp: cache_ok_def isEnabled_cache split: option.splits)

lemma cache_ok_filter: "cache_ok st \<Longrightarrow> cache_ok (snd (filter_isEnabled cs st))"
  by (induction cs arbitrary: st)
     (simp_all add: filter_isEnabled_snd cache_ok_isEnabled del: filter_isEnabled.simps(2))

lemma cache_ok_cong: "isEnabledCache st' = isEnabledCache st \<Longrightarrow> cache_ok st \<Longrightarrow> cache_ok st'"
  by (simp add: cache_ok_def)

lemma cache_ok_step: "cache_ok st \<Longrightarrow> cache_ok (step a st)"
proof (cases a)
  case (Call_isEnabled c)
  then show "cache_ok st \<Longrightarrow> ?thesis" by (simp add: cache_ok_isEnabled)
next
  case (Call_playSound s b)
  then show "cache_ok st \<Longrightarrow> ?thesis" by (simp add: cache_ok_def playSound_frame)
next
  case (Call_playAudioCue c b)
  then show "cache_ok st \<Longrightarrow> ?thesis"
    using cache_ok_isEnabled[of st c]
    by (simp add: playAudioCue_snd cache_ok_def playSound_frame)
next
  case (Call_playAudioCues cs)
  then show "cache_ok st \<Longrightarrow> ?thesis"
    using cache_ok_filter[of st cs]
    by (simp add: playAudioCues_snd cache_ok_def map_playSound_frame)
qed (simp_all add: cache_ok_def after_await_def Let_def split: option.splits)

lemma cache_ok_run: "cache_ok (run as (AudioCueService_new config sr))"
proof (rule run_invariant[where P = cache_ok])
  show "cache_ok (AudioCueService_new config sr)"
    by (simp add: cache_ok_def AudioCueService_new_def)
qed (rule cache_ok_step)

lemma isEnabled_get_value:
  assumes "cache_ok st"
  shows "fst (isEnabled_get c st) =
           audio_cue_enabled c (configuration st) (screenReaderOptimized st)"
proof -
  have "obs_cue (fst (isEnabled c st)) = c"
    using cache_ok_isEnabled[OF assms, of c] isEnabled_result[of c st]
    by (simp add: cache_ok_def)
  moreover have "fst (isEnabled_get c st) = observable_get (fst (isEnabled c st)) (snd (isEnabled c st))"
    by (simp add: isEnabled_get_def split: prod.splits)
  ultimately show ?thesis
    by (simp add: observable_get_def isEnabled_frame)
qed

section \<open>Enablement\<close>

lemma audio_cue_enabled_eq:
  "audio_cue_enabled C getValue sr =
     (let p = getValue (settingsKey C); l = getValue ''audioCues.enabled'';
          t1 = (p = JString ''on'' \<or> (p = JString ''auto'' \<and> sr));
          t2 = (l = JString ''on'' \<or> (l = JString ''auto'' \<and> sr))
      in (t1 \<or> t2,
          Read_settingObservable (settingsKey C)
           # (if p = JString ''auto'' then [Read_screenReaderAttached] else [])
           @ (if t1 then []
              else Read_obsoleteAudioCuesEnabled
                   # (if l = JString ''auto'' then [Read_screenReaderAttached] else []))))"
  by (simp add: audio_cue_enabled_def on_or_auto_def Let_def)

text \<open>
  C1. For every cue, in every state that a service can reach, \<open>isEnabled(C).get()\<close> is
  true exactly when the per-cue setting is \<open>on\<close>, or is \<open>auto\<close> while a screen
  reader is attached, or the legacy setting \<open>audioCues.enabled\<close> is \<open>on\<close>, or is
  \<open>auto\<close> while a screen reader is attached. The settings and the screen-reader state
  are those of the moment of the read, whatever they were when the observable was
  created. The reads happen in this order: the per-cue setting; the screen-reader state
  when that setting is \<open>auto\<close>; and only when the per-cue tier is false the legacy
  setting, followed by the screen-reader state when the legacy setting is \<open>auto\<close>.
  The settings range over all values the configuration can hold, so over
  \<open>on\<close>, \<open>off\<close> and \<open>auto\<close> in particular.
\<close>

theorem isEnabled_two_tiers:
  assumes "st = run as (AudioCueService_new config sr)"
    and "perCueSetting = configuration st (settingsKey C)"
    and "legacySetting = configuration st ''audioCues.enabled''"
    and "screenReaderAttached = screenReaderOptimized st"
    and "perCueTier = (perCueSetting = JString ''on'' \<or> (perCueSetting = JString ''auto'' \<and> screenReaderAttached))"
    and "legacyTier = (legacySetting = JString ''on'' \<or> (legacySetting = JString ''auto'' \<and> screenReaderAttached))"
  shows "fst (fst (isEnabled_get C st)) = (perCueTier \<or> legacyTier)
       \<and> snd (fst (isEnabled_get C st)) =
           Read_settingObservable (settingsKey C)
           # (if perCueSetting = JString ''auto'' then [Read_screenReaderAttached] else [])
           @ (if perCueTier then []
              else Read_obsoleteAudioCuesEnabled
                   # (if legacySetting = JString ''auto'' then [Read_screenReaderAttached] else []))"
proof -
  have "cache_ok st"
    using assms(1) cache_ok_run by simp
  then have "fst (isEnabled_get C st) = audio_cue_enabled C (configuration st) (screenReaderOptimized st)"
    by (rule isEnabled_get_value)
  then show ?thesis
    unfolding assms(2-6) audio_cue_enabled_eq Let_def by simp
qed

text \<open>
  The cue \<open>AudioCue.error\<close> with per-cue setting \<open>auto\<close> and legacy setting
  \<open>off\<close>: its observable is created while no screen reader is attached, then one
  attaches. The read gives true and never reaches the legacy setting.
\<close>

theorem isEnabled_two_tiers_witness:
  "fst (isEnabled_get AudioCue_error
         (run [Call_isEnabled AudioCue_error, Update_screenReader True]
            (AudioCueService_new
               ((\<lambda>_. JUndefined)(''audioCues.lineHasError'' := JString ''auto'',
                                  ''audioCues.enabled'' := JString ''off'')) False)))
   = (True, [Read_settingObservable ''audioCues.lineHasError'', Read_screenReaderAttached])"
proof -
  define st where "st = run [Call_isEnabled AudioCue_error, Update_screenReader True]
            (AudioCueService_new
               ((\<lambda>_. JUndefined)(''audioCues.lineHasError'' := JString ''auto'',
                                  ''audioCues.enabled'' := JString ''off'')) False)"
  have c: "configuration st ''audioCues.lineHasError'' = JString ''auto''"
    and l: "configuration st ''audioCues.enabled'' = JString ''off''"
    and s: "screenReaderOptimized st = True"
    by (simp_all add: st_def exec_defs)
  have "fst (isEnabled_get AudioCue_error st)
    = (True, [Read_settingObservable ''audioCues.lineHasError'', Read_screenReaderAttached])"
    using isEnabled_two_tiers[OF st_def refl refl refl refl refl, where C = AudioCue_error]
    by (simp add: c l s prod_eq_iff)
  then show ?thesis by (simp only: st_def)
qed

subsection \<open>The registry holds no sound twice\<close>

lemma count_list_distinct: "distinct xs \<Longrightarrow> x \<in> set xs \<Longrightarrow> count_list xs x = 1"
  by (induction xs) auto

lemma distinct_Set_add: "distinct xs \<Longrightarrow> distinct (Set_add x xs)"
  by (simp add: Set_add_def)

lemma distinct_Set_delete: "distinct xs \<Longrightarrow> distinct (Set_delete x xs)"
  by (simp add: Set_delete_def distinct_removeAll)

lemma playSound_playingSounds:
  "playingSounds (snd (playSound s a st)) =
     (if \<not> a \<and> Set_has s (playingSounds st) then playingSounds st
      else Set_add s (playingSounds st))"
  by (simp add: playSound_def Let_def split: option.splits)

lemma registry_ok_playSound: "registry_ok st \<Longrightarrow> registry_ok (snd (playSound s a st))"
  by (simp add: registry_ok_def playSound_playingSounds distinct_Set_add)

lemma registry_ok_map_playSound: "registry_ok st \<Longrightarrow> registry_ok (snd (map_playSound ss st))"
  by (induction ss arbitrary: st)
     (simp_all add: map_playSound_snd registry_ok_playSound del: map_playSound.simps(2))

lemma registry_ok_step: "registry_ok st \<Longrightarrow> registry_ok (step a st)"
proof (cases a)
  case (Call_isEnabled c)
  then show "registry_ok st \<Longrightarrow> ?thesis" by (simp add: registry_ok_def isEnabled_frame)
next
  case (Call_playSound s b)
  then show "registry_ok st \<Longrightarrow> ?thesis" by (simp add: registry_ok_playSound)
next
  case (Call_playAudioCue c b)
  assume "registry_ok st"
  then have "registry_ok (snd (isEnabled c st))"
    by (simp add: registry_ok_def isEnabled_frame)
  with Call_playAudioCue show ?thesis
    by (simp add: playAudioCue_snd registry_ok_playSound)
next
  case (Call_playAudioCues cs)
  assume "registry_ok st"
  then have "registry_ok (snd (filter_isEnabled cs st))"
    by (simp add: registry_ok_def filter_isEnabled_frame)
  with Call_playAudioCues show ?thesis
    by (simp add: playAudioCues_snd registry_ok_map_playSound)
next
  case (Ended i)
  then show "registry_ok st \<Longrightarrow> ?thesis"
    by (simp add: registry_ok_def distinct_Set_delete)
qed (simp_all add: registry_ok_def after_await_def Let_def split: option.splits)

lemma registry_ok_run: "registry_ok (run as (AudioCueService_new config sr))"
proof (rule run_invariant[where P = registry_ok])
  show "registry_ok (AudioCueService_new config sr)"
    by (simp add: registry_ok_def AudioCueService_new_def)
qed (rule registry_ok_step)

section \<open>De-duplication of a sound that is playing\<close>

text \<open>
  C2. In every state that a service can reach, when the sound \<open>S\<close> is in
  \<open>playingSounds\<close>, \<open>playSound(S)\<close> with \<open>allowManyInParallel = false\<close> returns
  at once with a fulfilled promise and leaves the whole state as it was: no playback is
  started, nothing is logged, and \<open>playingSounds\<close> holds \<open>S\<close> exactly once.
\<close>

theorem playSound_while_playing_is_noop:
  assumes "st = run as (AudioCueService_new config sr)"
    and "Set_has S (playingSounds st)"
  shows "playSound S False st = (Returned, st)
       \<and> promise_of (fst (playSound S False st)) (snd (playSound S False st)) = Fulfilled
       \<and> playbacks (snd (playSound S False st)) = playbacks st
       \<and> console (snd (playSound S False st)) = console st
       \<and> count_list (playingSounds (snd (playSound S False st))) S = 1"
proof -
  have noop: "playSound S False st = (Returned, st)"
    using assms(2) by (simp add: playSound_def)
  have "distinct (playingSounds st)"
    using registry_ok_run[of as config sr] assms(1) by (simp add: registry_ok_def)
  moreover have "S \<in> set (playingSounds st)"
    using assms(2) by (simp add: Set_has_def)
  ultimately have "count_list (playingSounds st) S = 1"
    by (simp add: count_list_distinct)
  with noop show ?thesis
    by (simp add: promise_of_def)
qed

text \<open>\<open>playSound(Sound.error)\<close> twice in immediate succession.\<close>

theorem playSound_while_playing_is_noop_witness:
  "playSound Sound_error False
     (run [Call_playSound Sound_error False] (AudioCueService_new (\<lambda>_. JUndefined) False))
   = (Returned, run [Call_playSound Sound_error False] (AudioCueService_new (\<lambda>_. JUndefined) False))
   \<and> playingSounds
        (snd (playSound Sound_error False
           (run [Call_playSound Sound_error False] (AudioCueService_new (\<lambda>_. JUndefined) False))))
     = [Sound_error]
   \<and> length (playbacks
        (snd (playSound Sound_error False
           (run [Call_playSound Sound_error False] (AudioCueService_new (\<lambda>_. JUndefined) False)))))
     = 1"
proof -
  define st where "st = run [Call_playSound Sound_error False] (AudioCueService_new (\<lambda>_. JUndefined) False)"
  have ps: "playingSounds st = [Sound_error]" and n: "length (playbacks st) = 1"
    by (simp_all add: st_def exec_defs)
  have "Set_has Sound_error (playingSounds st)"
    by (simp add: ps Set_has_def)
  from playSound_while_playing_is_noop[OF st_def this]
  have "playSound Sound_error False st = (Returned, st)" by simp
  then have "playSound Sound_error False st = (Returned, st)
      \<and> playingSounds (snd (playSound Sound_error False st)) = [Sound_error]
      \<and> length (playbacks (snd (playSound Sound_error False st))) = 1"
    by (simp add: ps n)
  then show ?thesis unfolding st_def .
qed

section \<open>The volume\<close>

lemma Math_clamp: "Math_max (Math_min v (Fin 100)) (Fin 0) = clamp v (Fin 0) (Fin 100)"
  by (cases v) (auto simp: clamp_def)

lemma getVolumeInPercent_cases:
  "getVolumeInPercent st =
     (case configuration st ''audioCues.volume'' of
        JNumber v \<Rightarrow> clamp v (Fin 0) (Fin 100)
      | _ \<Rightarrow> Fin 50)"
  by (simp add: getVolumeInPercent_def Math_clamp split: jsvalue.splits)

lemma volume_accepted:
  assumes "configuration st ''audioCues.volume'' \<noteq> JNumber NaN"
  shows "set_volume (js_div (getVolumeInPercent st) (Fin 100)) = None"
proof (cases "configuration st ''audioCues.volume''")
  case (JNumber v)
  with assms show ?thesis
    by (cases v) (simp_all add: getVolumeInPercent_def set_volume_def)
qed (simp_all add: getVolumeInPercent_def set_volume_def)


lemma playSound_starts:
  assumes "configuration st ''audioCues.volume'' \<noteq> JNumber NaN"
    and "a \<or> \<not> Set_has s (playingSounds st)"
  shows "fst (playSound s a st) = Awaiting (length (playbacks st))"
  using assms(2) volume_accepted[OF assms(1)] by (auto simp: playSound_def Let_def)

lemma playSound_started:
  assumes "fst (playSound s a st) = Awaiting i"
  shows "i = length (playbacks st)"
    and "playbacks (snd (playSound s a st)) ! i =
           \<lparr>pb_sound = s, pb_url = ''vs/platform/audioCues/common/media/'' @ fileName s,
            pb_volume = js_div (getVolumeInPercent st) (Fin 100), pb_media = Loading,
            pb_removed = False, pb_deadline = clock st + 1000, pb_promise = Pending\<rparr>"
    and "playbacks (snd (playSound s a st)) = playbacks st @ [playbacks (snd (playSound s a st)) ! i]"
    and "playingSounds (snd (playSound s a st)) = Set_add s (playingSounds st)"
  using assms by (auto simp: playSound_def Let_def split: if_splits option.splits)

text \<open>
  C6. Whenever \<open>playSound\<close> starts a playback, the volume it gives the audio element is
  \<open>clamp(v, 0, 100) / 100\<close> when the configured value of \<open>audioCues.volume\<close> is a
  number \<open>v\<close>, and \<open>50 / 100\<close> when the value is missing or is not a number. For a
  finite number \<open>x\<close> this is \<open>max 0 (min 100 x) / 100\<close>.
\<close>

theorem volume_is_clamped_percentage:
  assumes "fst (playSound s allow st) = Awaiting i"
  shows "pb_volume (playbacks (snd (playSound s allow st)) ! i) =
           (case configuration st ''audioCues.volume'' of
              JNumber v \<Rightarrow> js_div (clamp v (Fin 0) (Fin 100)) (Fin 100)
            | _ \<Rightarrow> js_div (Fin 50) (Fin 100))
       \<and> (\<forall>x. configuration st ''audioCues.volume'' = JNumber (Fin x) \<longrightarrow>
             getVolumeInPercent st = Fin (max 0 (min 100 x)) \<and>
             pb_volume (playbacks (snd (playSound s allow st)) ! i) = Fin (max 0 (min 100 x) / 100))"
proof -
  have "pb_volume (playbacks (snd (playSound s allow st)) ! i) = js_div (getVolumeInPercent st) (Fin 100)"
    by (simp add: playSound_started(2)[OF assms])
  then show ?thesis
    by (auto simp: getVolumeInPercent_cases clamp_def split: jsvalue.splits)
qed

text \<open>The inputs 150, -5, the string \<open>loud\<close> and a missing value.\<close>

theorem volume_is_clamped_percentage_witness:
  "getVolumeInPercent (AudioCueService_new ((\<lambda>_. JUndefined)(''audioCues.volume'' := JNumber (Fin 150))) False) = Fin 100
 \<and> pb_volume (playbacks (snd (playSound Sound_error False
      (AudioCueService_new ((\<lambda>_. JUndefined)(''audioCues.volume'' := JNumber (Fin 150))) False))) ! 0) = Fin 1
 \<and> getVolumeInPercent (AudioCueService_new ((\<lambda>_. JUndefined)(''audioCues.volume'' := JNumber (Fin (- 5)))) False) = Fin 0
 \<and> pb_volume (playbacks (snd (playSound Sound_error False
      (AudioCueService_new ((\<lambda>_. JUndefined)(''audioCues.volume'' := JNumber (Fin (- 5)))) False))) ! 0) = Fin 0
 \<and> getVolumeInPercent (AudioCueService_new ((\<lambda>_. JUndefined)(''audioCues.volume'' := JString ''loud'')) False) = Fin 50
 \<and> pb_volume (playbacks (snd (playSound Sound_error False
      (AudioCueService_new ((\<lambda>_. JUndefined)(''audioCues.volume'' := JString ''loud'')) False))) ! 0) = Fin (1 / 2)
 \<and> pb_volume (playbacks (snd (playSound Sound_error False
      (AudioCueService_new (\<lambda>_. JUndefined) False))) ! 0) = Fin (1 / 2)"
proof -
  have started: "fst (playSound Sound_error False (AudioCueService_new c False)) = Awaiting 0"
    if "c ''audioCues.volume'' \<noteq> JNumber NaN" for c
    using playSound_starts[of "AudioCueService_new c False" False Sound_error] that
    by (simp add: AudioCueService_new_def Set_has_def)
  have cfg: "configuration (AudioCueService_new c False) = c" for c
    by (simp add: AudioCueService_new_def)
  have s1: "fst (playSound Sound_error False
      (AudioCueService_new ((\<lambda>_. JUndefined)(''audioCues.volume'' := JNumber (Fin 150))) False)) = Awaiting 0"
    and s2: "fst (playSound Sound_error False
      (AudioCueService_new ((\<lambda>_. JUndefined)(''audioCues.volume'' := JNumber (Fin (- 5)))) False)) = Awaiting 0"
    and s3: "fst (playSound Sound_error False
      (AudioCueService_new ((\<lambda>_. JUndefined)(''audioCues.volume'' := JString ''loud'')) False)) = Awaiting 0"
    and s4: "fst (playSound Sound_error False (AudioCueService_new (\<lambda>_. JUndefined) False)) = Awaiting 0"
    by (rule started, simp)+
  show ?thesis
    using volume_is_clamped_percentage[OF s1] volume_is_clamped_percentage[OF s2]
      volume_is_clamped_percentage[OF s3] volume_is_clamped_percentage[OF s4]
    by (simp add: cfg clamp_def getVolumeInPercent_def)
qed




subsection \<open>Calls append playbacks, events update them in place\<close>

lemma playSound_appends:
  "\<exists>xs. playbacks (snd (playSound s a st)) = playbacks st @ xs \<and> (\<forall>p\<in>set xs. fresh (clock st) p)"
  by (simp add: playSound_def Let_def fresh_def split: option.splits)

lemma map_playSound_appends:
  "\<exists>xs. playbacks (snd (map_playSound ss st)) = playbacks st @ xs \<and> (\<forall>p\<in>set xs. fresh (clock st) p)"
proof (induction ss arbitrary: st)
  case Nil
  then show ?case by simp
next
  case (Cons s ss)
  let ?st1 = "snd (playSound s False st)"
  obtain xs where xs: "playbacks ?st1 = playbacks st @ xs" "\<forall>p\<in>set xs. fresh (clock st) p"
    using playSound_appends by blast
  obtain ys where ys: "playbacks (snd (map_playSound ss ?st1)) = playbacks ?st1 @ ys"
      "\<forall>p\<in>set ys. fresh (clock ?st1) p"
    using Cons.IH by blast
  have "playbacks (snd (map_playSound (s # ss) st)) = playbacks st @ (xs @ ys)"
    by (simp add: map_playSound_snd xs(1) ys(1) del: map_playSound.simps(2))
  moreover have "\<forall>p\<in>set (xs @ ys). fresh (clock st) p"
    using xs(2) ys(2) by (auto simp: playSound_frame)
  ultimately show ?case by blast
qed

lemma step_call_appends:
  assumes "\<not> is_event a"
  shows "\<exists>xs. playbacks (step a st) = playbacks st @ xs \<and> (\<forall>p\<in>set xs. fresh (clock st) p)"
proof (cases a)
  case (Call_isEnabled c)
  then show ?thesis by (simp add: isEnabled_frame)
next
  case (Call_playSound s b)
  then show ?thesis by (simp add: playSound_appends)
next
  case (Call_playAudioCue c b)
  show ?thesis
    using playSound_appends[of "sound c" b "snd (isEnabled c st)"]
    by (simp add: Call_playAudioCue playAudioCue_snd isEnabled_frame)
next
  case (Call_playAudioCues cs)
  show ?thesis
    using map_playSound_appends[of "Set_of (map sound (fst (filter_isEnabled cs st)))" "snd (filter_isEnabled cs st)"]
    by (simp add: Call_playAudioCues playAudioCues_snd filter_isEnabled_frame)
qed (use assms in simp_all)

lemma step_call_clock: "\<not> is_event a \<Longrightarrow> clock (step a st) = clock st"
  by (cases a)
     (simp_all add: isEnabled_frame playSound_frame playAudioCue_snd playAudioCues_snd
        map_playSound_frame filter_isEnabled_frame)

lemma step_length: "length (playbacks st) \<le> length (playbacks (step a st))"
proof (cases "is_event a")
  case True
  then show ?thesis by (cases a) (simp_all add: after_await_def Let_def)
next
  case False
  then show ?thesis using step_call_appends[of a st] by auto
qed

lemma step_call_nth:
  "\<not> is_event a \<Longrightarrow> i < length (playbacks st) \<Longrightarrow> playbacks (step a st) ! i = playbacks st ! i"
  using step_call_appends[of a st] by (auto simp: nth_append)

lemma run_length: "length (playbacks st) \<le> length (playbacks (run as st))"
proof (induction as arbitrary: st)
  case Nil
  then show ?case by (simp add: run_Nil)
next
  case (Cons a as)
  then show ?case using step_length[of st a] le_trans by (fastforce simp: run_Cons)
qed

subsection \<open>No promise is rejected\<close>

lemma promises_ok_step:
  assumes "promises_ok st"
  shows "promises_ok (step a st)"
proof (cases "is_event a")
  case False
  obtain xs where xs: "playbacks (step a st) = playbacks st @ xs" "\<forall>p\<in>set xs. fresh (clock st) p"
    using step_call_appends[OF False] by blast
  have "\<And>i. i < length xs \<Longrightarrow> fresh (clock st) (xs ! i)"
    using xs(2) by simp
  then show ?thesis
    using assms by (auto simp: promises_ok_def xs(1) step_call_clock[OF False] nth_append fresh_def)
next
  case True
  then show ?thesis
  proof (cases a)
    case (PlayFulfilled j)
    then show ?thesis
      using assms
      by (auto simp: promises_ok_def after_await_def finally_return_def Let_def nth_list_update)
  next
    case (PlayRejected j e)
    then show ?thesis
      using assms
      by (auto simp: promises_ok_def after_await_def finally_return_def Let_def nth_list_update)
  next
    case (Ended j)
    then show ?thesis
      using assms by (auto simp: promises_ok_def nth_list_update)
  next
    case (Advance d)
    then show ?thesis
      using assms by (auto simp: promises_ok_def timer_fires_def finally_return_def)
  qed simp_all
qed

lemma promises_ok_run: "promises_ok st \<Longrightarrow> promises_ok (run as st)"
  by (rule run_invariant[where P = promises_ok]) (simp_all add: promises_ok_step)

lemma promises_ok_new: "promises_ok (AudioCueService_new config sr)"
  by (simp add: promises_ok_def AudioCueService_new_def)

subsection \<open>A playback that never settles\<close>

lemma unsettled_step:
  assumes "unsettled i D st" and "a \<noteq> PlayFulfilled i" and "\<forall>e. a \<noteq> PlayRejected i e"
  shows "unsettled i D (step a st)"
proof (cases "is_event a")
  case False
  then show ?thesis
    using assms(1) step_length[of st a]
    by (auto simp: unsettled_def step_call_nth step_call_clock)
next
  case True
  then show ?thesis
  proof (cases a)
    case (PlayFulfilled j)
    then show ?thesis
      using assms
      by (auto simp: unsettled_def after_await_def finally_return_def Let_def nth_list_update)
  next
    case (PlayRejected j e)
    then show ?thesis
      using assms
      by (auto simp: unsettled_def after_await_def finally_return_def Let_def nth_list_update)
  next
    case (Ended j)
    then show ?thesis
      using assms by (auto simp: unsettled_def nth_list_update)
  next
    case (Advance d)
    then show ?thesis
      using assms by (auto simp: unsettled_def timer_fires_def finally_return_def)
  qed simp_all
qed

lemma unsettled_run:
  assumes "unsettled i D st" and "PlayFulfilled i \<notin> set evs" and "\<forall>e. PlayRejected i e \<notin> set evs"
  shows "unsettled i D (run evs st)"
  using assms
proof (induction evs arbitrary: st)
  case Nil
  then show ?case by (simp add: run_Nil)
next
  case (Cons a evs)
  have "unsettled i D (step a st)"
    using Cons.prems by (intro unsettled_step) auto
  then show ?case
    using Cons.prems by (simp add: run_Cons Cons.IH)
qed

subsection \<open>What a playback was created with does not change\<close>

lemma step_static:
  assumes "i < length (playbacks st)"
  shows "pb_sound (playbacks (step a st) ! i) = pb_sound (playbacks st ! i)
       \<and> pb_deadline (playbacks (step a st) ! i) = pb_deadline (playbacks st ! i)
       \<and> pb_volume (playbacks (step a st) ! i) = pb_volume (playbacks st ! i)
       \<and> pb_url (playbacks (step a st) ! i) = pb_url (playbacks st ! i)"
proof (cases "is_event a")
  case False
  then show ?thesis using assms by (simp add: step_call_nth)
next
  case True
  then show ?thesis
    using assms
    by (cases a)
       (auto simp: after_await_def finally_return_def timer_fires_def Let_def nth_list_update)
qed

lemma run_static:
  assumes "i < length (playbacks st)"
  shows "pb_sound (playbacks (run as st) ! i) = pb_sound (playbacks st ! i)
       \<and> pb_deadline (playbacks (run as st) ! i) = pb_deadline (playbacks st ! i)
       \<and> pb_volume (playbacks (run as st) ! i) = pb_volume (playbacks st ! i)
       \<and> pb_url (playbacks (run as st) ! i) = pb_url (playbacks st ! i)"
  using assms
proof (induction as arbitrary: st)
  case Nil
  then show ?case by (simp add: run_Nil)
next
  case (Cons a as)
  have "i < length (playbacks (step a st))"
    using Cons.prems step_length[of st a] by simp
  from Cons.IH[OF this] step_static[OF Cons.prems, of a]
  show ?case by (simp add: run_Cons)
qed

lemma playSound_started_length:
  "fst (playSound s a st) = Awaiting i \<Longrightarrow> length (playbacks (snd (playSound s a st))) = Suc i"
  by (auto simp: playSound_def Let_def split: if_splits option.splits)

lemma promise_cases: "p \<noteq> Pending \<Longrightarrow> \<forall>e. p \<noteq> Rejected e \<Longrightarrow> p = Fulfilled"
  by (cases p) auto

section \<open>Errors and the timeout of \<open>playSound\<close>\<close>

text \<open>
  C7. The claim: whatever the playback does, the promise of \<open>playSound(S)\<close> is
  fulfilled and no exception reaches the caller. The code keeps a malformed volume from
  the element with a \<open>typeof\<close> test (line 56) and errors from the caller with a
  \<open>try\<close> (lines 80-90), and misses one case of each: \<open>NaN\<close> is a number, so it
  passes the test, and the assignment \<open>audio.volume = NaN / 100\<close> (line 76) stands
  before the \<open>try\<close>. Here, on a new service with the volume \<open>NaN\<close>,
  \<open>playSound(Sound.error)\<close> throws at that assignment: its promise is rejected with
  the \<open>TypeError\<close>, nothing is logged, no playback exists, and \<open>Sound.error\<close> is
  left in \<open>playingSounds\<close>, so that the next \<open>playSound(Sound.error)\<close> returns at
  the guard.
\<close>

theorem NaN_volume_rejects_playSound:
  "promise_of
     (fst (playSound Sound_error False
        (AudioCueService_new ((\<lambda>_. JUndefined)(''audioCues.volume'' := JNumber NaN)) False)))
     (snd (playSound Sound_error False
        (AudioCueService_new ((\<lambda>_. JUndefined)(''audioCues.volume'' := JNumber NaN)) False)))
   = Rejected ''TypeError''
 \<and> console (snd (playSound Sound_error False
        (AudioCueService_new ((\<lambda>_. JUndefined)(''audioCues.volume'' := JNumber NaN)) False)))
   = []
 \<and> playbacks (snd (playSound Sound_error False
        (AudioCueService_new ((\<lambda>_. JUndefined)(''audioCues.volume'' := JNumber NaN)) False)))
   = []
 \<and> playingSounds (snd (playSound Sound_error False
        (AudioCueService_new ((\<lambda>_. JUndefined)(''audioCues.volume'' := JNumber NaN)) False)))
   = [Sound_error]
 \<and> fst (playSound Sound_error False
       (run [Call_playSound Sound_error False]
          (AudioCueService_new ((\<lambda>_. JUndefined)(''audioCues.volume'' := JNumber NaN)) False)))
   = Returned"
  by (simp add: exec_defs)

text \<open>
  With any other volume the \<open>try\<close> does what the claim says. Take a call
  \<open>playSound(S)\<close> in any state a service can reach in which the configured volume is
  not \<open>NaN\<close>, followed by anything: further calls, changes of the configuration, and
  any behaviour of the platform (\<open>audio.play()\<close> fulfilled or rejected with any error,
  at any time or never, \<open>ended\<close> events, time passing). The promise the call has
  returned is never rejected; it is fulfilled as soon as 1000 ms have passed, at the
  latest; and while it is pending, a rejection of \<open>audio.play()\<close> with \<open>e\<close>
  fulfils it and logs \<open>e\<close> on the console.
\<close>

lemma playSound_promise_fulfilled_unless_NaN:
  assumes "st0 = run as (AudioCueService_new config sr)"
    and "configuration st0 ''audioCues.volume'' \<noteq> JNumber NaN"
    and "r = fst (playSound S allow st0)"
    and "st1 = snd (playSound S allow st0)"
    and "st2 = run evs st1"
  shows "(\<forall>e. promise_of r st2 \<noteq> Rejected e)
       \<and> (clock st1 + 1000 \<le> clock st2 \<longrightarrow> promise_of r st2 = Fulfilled)
       \<and> (\<forall>i e. r = Awaiting i \<and> promise_of r st2 = Pending \<longrightarrow>
            promise_of r (step (PlayRejected i e) st2) = Fulfilled \<and>
            console (step (PlayRejected i e) st2) = console st2 @ [''Error while playing sound '' @ e])"
proof (cases r)
  case Returned
  then show ?thesis by (simp add: promise_of_def)
next
  case (Threw e)
  then have "set_volume (js_div (getVolumeInPercent st0) (Fin 100)) \<noteq> None"
    using assms(3) by (auto simp: playSound_def Let_def split: if_splits option.splits)
  then show ?thesis
    using volume_accepted[OF assms(2)] by simp
next
  case (Awaiting i)
  have started: "fst (playSound S allow st0) = Awaiting i"
    using assms(3) Awaiting by simp
  have i1: "i < length (playbacks st1)"
    using playSound_started_length[OF started] assms(4) by simp
  have d1: "pb_deadline (playbacks st1 ! i) = clock st1 + 1000"
    using playSound_started(2)[OF started] assms(4) by (simp add: playSound_frame)
  have i2: "i < length (playbacks st2)"
    using i1 run_length[of st1 evs] assms(5) by simp
  have d2: "pb_deadline (playbacks st2 ! i) = clock st1 + 1000"
    using run_static[OF i1, of evs] d1 assms(5) by simp
  have "promises_ok st1"
    using promises_ok_run[OF promises_ok_new, of as config sr] promises_ok_step[of st0 "Call_playSound S allow"]
      assms(1,4) by simp
  then have ok: "promises_ok st2"
    using assms(5) by (simp add: promises_ok_run)
  have nr: "\<forall>e. pb_promise (playbacks st2 ! i) \<noteq> Rejected e"
    and pend: "pb_promise (playbacks st2 ! i) = Pending \<Longrightarrow>
          clock st2 < clock st1 + 1000 \<and> pb_media (playbacks st2 ! i) = Loading"
    using ok i2 d2 by (auto simp: promises_ok_def)
  have late: "clock st1 + 1000 \<le> clock st2 \<Longrightarrow> pb_promise (playbacks st2 ! i) = Fulfilled"
    using pend nr by (intro promise_cases) auto
  have rej: "pb_promise (playbacks (step (PlayRejected i e) st2) ! i) = Fulfilled \<and>
            console (step (PlayRejected i e) st2) = console st2 @ [''Error while playing sound '' @ e]"
    if "pb_promise (playbacks st2 ! i) = Pending" for e
    using that pend i2 by (simp add: after_await_def finally_return_def)
  show ?thesis
    using nr late rej by (simp add: Awaiting promise_of_def)
qed

text \<open>
  \<open>playSound(Sound.error)\<close> with the default volume, whose \<open>audio.play()\<close> is
  rejected after 300 ms: the promise is fulfilled and the error is on the console.
\<close>

lemma playSound_promise_fulfilled_unless_NaN_example:
  "promise_of (fst (playSound Sound_error False (run [] (AudioCueService_new (\<lambda>_. JUndefined) False))))
     (run [Advance 300, PlayRejected 0 ''NotSupportedError'']
        (snd (playSound Sound_error False (run [] (AudioCueService_new (\<lambda>_. JUndefined) False)))))
   = Fulfilled
 \<and> console
     (run [Advance 300, PlayRejected 0 ''NotSupportedError'']
        (snd (playSound Sound_error False (run [] (AudioCueService_new (\<lambda>_. JUndefined) False)))))
   = [''Error while playing sound NotSupportedError'']"
proof -
  define st0 where "st0 = run [] (AudioCueService_new (\<lambda>_. JUndefined) False)"
  define st2 where "st2 = run [Advance 300] (snd (playSound Sound_error False st0))"
  have v: "configuration st0 ''audioCues.volume'' \<noteq> JNumber NaN"
    by (simp add: st0_def exec_defs)
  have r: "fst (playSound Sound_error False st0) = Awaiting 0"
    by (simp add: st0_def exec_defs)
  have p: "promise_of (fst (playSound Sound_error False st0)) st2 = Pending"
    and c: "console st2 = []"
    by (simp_all add: st0_def st2_def exec_defs)
  have "promise_of (fst (playSound Sound_error False st0)) (step (PlayRejected 0 ''NotSupportedError'') st2) = Fulfilled
      \<and> console (step (PlayRejected 0 ''NotSupportedError'') st2) = [''Error while playing sound NotSupportedError'']"
    using playSound_promise_fulfilled_unless_NaN[OF st0_def v refl refl st2_def] r p c
    by simp
  then show ?thesis
    unfolding st0_def st2_def by (simp add: run_def)
qed

text \<open>
  C8. Take a call \<open>playSound(S)\<close> that starts a playback \<open>i\<close>, in any state a
  service can reach, followed by anything in which \<open>audio.play()\<close> of \<open>i\<close> neither
  fulfils nor rejects. The promise of the call is pending as long as fewer than 1000 ms
  have passed and fulfilled (not rejected) from then on. The timeout logs nothing and
  leaves the media element loading: the request is not cancelled, and the playback can
  still begin afterwards.
\<close>

theorem playSound_returns_at_timeout:
  assumes "st0 = run as (AudioCueService_new config sr)"
    and "fst (playSound S allow st0) = Awaiting i"
    and "st1 = snd (playSound S allow st0)"
    and "st2 = run evs st1"
    and "PlayFulfilled i \<notin> set evs"
    and "\<forall>e. PlayRejected i e \<notin> set evs"
  shows "(clock st2 < clock st1 + 1000 \<longrightarrow> pb_promise (playbacks st2 ! i) = Pending)
       \<and> (clock st1 + 1000 \<le> clock st2 \<longrightarrow> pb_promise (playbacks st2 ! i) = Fulfilled)
       \<and> pb_media (playbacks st2 ! i) = Loading
       \<and> console (step (Advance d) st2) = console st2
       \<and> pb_media (playbacks (step (Advance d) st2) ! i) = Loading
       \<and> pb_media (playbacks (step (PlayFulfilled i) st2) ! i) = Playing"
proof -
  have "unsettled i (clock st1 + 1000) st1"
    using playSound_started(2)[OF assms(2)] playSound_started_length[OF assms(2)] assms(3)
    by (simp add: unsettled_def playSound_frame)
  then have u: "unsettled i (clock st1 + 1000) st2"
    using assms(4-6) by (simp add: unsettled_run)
  then have "unsettled i (clock st1 + 1000) (step (Advance d) st2)"
    by (rule unsettled_step) simp_all
  then have "pb_media (playbacks (step (Advance d) st2) ! i) = Loading"
    by (simp only: unsettled_def)
  moreover have "pb_media (playbacks (step (PlayFulfilled i) st2) ! i) = Playing"
    using u by (simp add: unsettled_def after_await_def finally_return_def)
  ultimately show ?thesis
    using u by (simp add: unsettled_def)
qed

text \<open>
  \<open>playSound(Sound.error)\<close> whose playback never signals anything: pending after
  999 ms, fulfilled after 1000 ms, with the element still loading and nothing logged.
\<close>

theorem playSound_returns_at_timeout_witness:
  "pb_promise (playbacks (run [Advance 999]
      (snd (playSound Sound_error False (run [] (AudioCueService_new (\<lambda>_. JUndefined) False))))) ! 0)
   = Pending
 \<and> pb_promise (playbacks (run [Advance 999, Advance 1]
      (snd (playSound Sound_error False (run [] (AudioCueService_new (\<lambda>_. JUndefined) False))))) ! 0)
   = Fulfilled
 \<and> pb_media (playbacks (run [Advance 999, Advance 1]
      (snd (playSound Sound_error False (run [] (AudioCueService_new (\<lambda>_. JUndefined) False))))) ! 0)
   = Loading"
proof -
  define st0 where "st0 = run [] (AudioCueService_new (\<lambda>_. JUndefined) False)"
  define st2 where "st2 = run [Advance 999] (snd (playSound Sound_error False st0))"
  define st3 where "st3 = run [Advance 999, Advance 1] (snd (playSound Sound_error False st0))"
  have r: "fst (playSound Sound_error False st0) = Awaiting 0"
    by (simp add: st0_def exec_defs)
  have c1: "clock (snd (playSound Sound_error False st0)) = 0"
    and c2: "clock st2 = 999" and c3: "clock st3 = 1000"
    by (simp_all add: st0_def st2_def st3_def exec_defs)
  have "pb_promise (playbacks st2 ! 0) = Pending"
    using playSound_returns_at_timeout[OF st0_def r refl st2_def] c1 c2 by simp
  moreover have "pb_promise (playbacks st3 ! 0) = Fulfilled \<and> pb_media (playbacks st3 ! 0) = Loading"
    using playSound_returns_at_timeout[OF st0_def r refl st3_def] c1 c3 by simp
  ultimately show ?thesis
    unfolding st0_def st2_def st3_def by simp
qed

section \<open>The registry of playing sounds\<close>

text \<open>
  C10. In any state a service can reach in which \<open>S\<close> is in \<open>playingSounds\<close>
  (and the configured volume is not \<open>NaN\<close>, so that the element accepts it),
  \<open>playSound(S, true)\<close> starts a second playback and leaves the registry as it was,
  with \<open>S\<close> in it once. Whatever follows, when a playback \<open>j\<close> of \<open>S\<close> that is
  playing fires \<open>ended\<close>, the registry no longer has \<open>S\<close>, while every other
  playback is exactly as it was before the event, in flight or not.
\<close>

theorem parallel_playbacks_share_one_entry:
  assumes "st0 = run as (AudioCueService_new config sr)"
    and "configuration st0 ''audioCues.volume'' \<noteq> JNumber NaN"
    and "Set_has S (playingSounds st0)"
    and "st1 = snd (playSound S True st0)"
    and "st2 = run evs st1"
    and "j < length (playbacks st2)"
    and "pb_sound (playbacks st2 ! j) = S"
    and "pb_media (playbacks st2 ! j) = Playing"
  shows "fst (playSound S True st0) = Awaiting (length (playbacks st0))
       \<and> length (playbacks st1) = Suc (length (playbacks st0))
       \<and> pb_sound (playbacks st1 ! length (playbacks st0)) = S
       \<and> playingSounds st1 = playingSounds st0
       \<and> count_list (playingSounds st1) S = 1
       \<and> \<not> Set_has S (playingSounds (step (Ended j) st2))
       \<and> (\<forall>k. k \<noteq> j \<longrightarrow> playbacks (step (Ended j) st2) ! k = playbacks st2 ! k)"
proof -
  have f: "fst (playSound S True st0) = Awaiting (length (playbacks st0))"
    by (rule playSound_starts[OF assms(2)]) simp
  have "distinct (playingSounds st0)"
    using registry_ok_run[of as config sr] assms(1) by (simp add: registry_ok_def)
  then have cnt: "count_list (playingSounds st0) S = 1"
    using assms(3) by (simp add: count_list_distinct Set_has_def)
  have same: "playingSounds st1 = playingSounds st0"
    using assms(3,4) by (simp add: playSound_playingSounds Set_add_def Set_has_def)
  have "\<not> Set_has S (playingSounds (step (Ended j) st2))"
    using assms(6-8) by (simp add: Set_has_def Set_delete_def)
  moreover have "\<forall>k. k \<noteq> j \<longrightarrow> playbacks (step (Ended j) st2) ! k = playbacks st2 ! k"
    by simp
  ultimately show ?thesis
    using f cnt same playSound_started(2)[OF f] playSound_started_length[OF f] assms(4)
    by simp
qed

text \<open>
  Two playbacks of \<open>Sound.error\<close>, the second with \<open>allowManyInParallel\<close>; both
  begin, and the first ends: the registry is empty while the second is playing.
\<close>

theorem parallel_playbacks_share_one_entry_witness:
  "playingSounds (snd (playSound Sound_error True
      (run [Call_playSound Sound_error False] (AudioCueService_new (\<lambda>_. JUndefined) False))))
   = [Sound_error]
 \<and> playingSounds (step (Ended 0) (run [PlayFulfilled 0, PlayFulfilled 1]
      (snd (playSound Sound_error True
        (run [Call_playSound Sound_error False] (AudioCueService_new (\<lambda>_. JUndefined) False))))))
   = []
 \<and> pb_media (playbacks (step (Ended 0) (run [PlayFulfilled 0, PlayFulfilled 1]
      (snd (playSound Sound_error True
        (run [Call_playSound Sound_error False] (AudioCueService_new (\<lambda>_. JUndefined) False)))))) ! 1)
   = Playing"
proof -
  define st0 where "st0 = run [Call_playSound Sound_error False] (AudioCueService_new (\<lambda>_. JUndefined) False)"
  define st2 where "st2 = run [PlayFulfilled 0, PlayFulfilled 1] (snd (playSound Sound_error True st0))"
  have h: "Set_has Sound_error (playingSounds st0)"
    and p0: "playingSounds st0 = [Sound_error]"
    and v: "configuration st0 ''audioCues.volume'' \<noteq> JNumber NaN"
    by (simp_all add: st0_def exec_defs)
  have j: "0 < length (playbacks st2)" "pb_sound (playbacks st2 ! 0) = Sound_error"
      "pb_media (playbacks st2 ! 0) = Playing"
    and k: "pb_media (playbacks st2 ! 1) = Playing"
    and p2: "playingSounds st2 = [Sound_error]"
    by (simp_all add: st0_def st2_def exec_defs)
  have "playingSounds (snd (playSound Sound_error True st0)) = [Sound_error]
      \<and> \<not> Set_has Sound_error (playingSounds (step (Ended 0) st2))
      \<and> pb_media (playbacks (step (Ended 0) st2) ! 1) = Playing"
    using parallel_playbacks_share_one_entry[OF st0_def v h refl st2_def j] p0 k
    by simp
  moreover have "playingSounds (step (Ended 0) st2) = Set_delete Sound_error [Sound_error]"
    using j p2 by simp
  ultimately show ?thesis
    unfolding st0_def st2_def by (simp add: Set_delete_def)
qed

text \<open>
  C3. The claim: a sound is in \<open>playingSounds\<close> exactly while a playback of it is
  under way, and its entry is removed on natural completion or on the cleanup path of a
  timeout or an error. The code removes an entry in the \<open>ended\<close> listener only; the
  \<open>finally\<close> block runs \<open>audio.remove()\<close> and leaves \<open>playingSounds\<close> alone.
  Here \<open>audio.play()\<close> of \<open>playSound(Sound.error)\<close> is rejected: the call has
  returned, the element has failed and has been removed, no \<open>ended\<close> event can come
  (an \<open>ended\<close> event and the passing of time change nothing), and \<open>Sound.error\<close>
  is still in the registry, so that the next \<open>playSound(Sound.error)\<close> starts nothing.
\<close>

theorem failed_playback_stays_registered:
  "playingSounds (run [Call_playSound Sound_error False, PlayRejected 0 ''NotAllowedError'',
                       Ended 0, Advance 5000] (AudioCueService_new (\<lambda>_. JUndefined) False))
   = [Sound_error]
 \<and> map pb_media (playbacks (run [Call_playSound Sound_error False, PlayRejected 0 ''NotAllowedError'',
                       Ended 0, Advance 5000] (AudioCueService_new (\<lambda>_. JUndefined) False)))
   = [Failed]
 \<and> map pb_promise (playbacks (run [Call_playSound Sound_error False, PlayRejected 0 ''NotAllowedError'',
                       Ended 0, Advance 5000] (AudioCueService_new (\<lambda>_. JUndefined) False)))
   = [Fulfilled]
 \<and> map pb_removed (playbacks (run [Call_playSound Sound_error False, PlayRejected 0 ''NotAllowedError'',
                       Ended 0, Advance 5000] (AudioCueService_new (\<lambda>_. JUndefined) False)))
   = [True]
 \<and> fst (playSound Sound_error False
       (run [Call_playSound Sound_error False, PlayRejected 0 ''NotAllowedError'',
             Ended 0, Advance 5000] (AudioCueService_new (\<lambda>_. JUndefined) False)))
   = Returned
 \<and> map pb_media (playbacks (run [Call_playSound Sound_error False, PlayRejected 0 ''NotAllowedError'',
                       Ended 0, Advance 5000, Call_playSound Sound_error False]
                       (AudioCueService_new (\<lambda>_. JUndefined) False)))
   = [Failed]"
  by (simp add: exec_defs)

subsection \<open>The cache only grows, and its factory runs once for each key\<close>

lemma isEnabled_calls:
  "getValueCalls (snd (isEnabled c st)) =
     (if isEnabledCache st c = None then getValueCalls st @ [c] else getValueCalls st)"
  by (auto simp: isEnabled_def Cache_get_def isEnabledCache_getValue_def split: option.splits)

lemma isEnabled_hit:
  "isEnabledCache st c = Some d \<Longrightarrow> isEnabled c st = (d, st)"
  by (simp add: isEnabled_def Cache_get_def)

lemma isEnabled_keeps:
  "isEnabledCache st c = Some d \<Longrightarrow> isEnabledCache (snd (isEnabled c' st)) c = Some d"
  by (auto simp: isEnabled_cache split: option.splits)

lemma filter_isEnabled_keeps:
  "isEnabledCache st c = Some d \<Longrightarrow> isEnabledCache (snd (filter_isEnabled cs st)) c = Some d"
  by (induction cs arbitrary: st)
     (simp_all add: filter_isEnabled_snd isEnabled_keeps del: filter_isEnabled.simps(2))

lemma step_keeps:
  assumes "isEnabledCache st c = Some d"
  shows "isEnabledCache (step a st) c = Some d"
proof (cases a)
  case (Call_isEnabled c')
  then show ?thesis using assms by (simp add: isEnabled_keeps)
next
  case (Call_playSound s b)
  then show ?thesis using assms by (simp add: playSound_frame)
next
  case (Call_playAudioCue c' b)
  then show ?thesis
    using isEnabled_keeps[OF assms, of c'] by (simp add: playAudioCue_snd playSound_frame)
next
  case (Call_playAudioCues cs)
  then show ?thesis
    using filter_isEnabled_keeps[OF assms, of cs] by (simp add: playAudioCues_snd map_playSound_frame)
qed (use assms in \<open>simp_all add: after_await_def Let_def split: option.splits\<close>)

lemma run_keeps:
  "isEnabledCache st c = Some d \<Longrightarrow> isEnabledCache (run as st) c = Some d"
  by (rule run_invariant[where P = "\<lambda>s. isEnabledCache s c = Some d"]) (simp_all add: step_keeps)

lemma calls_ok_isEnabled: "calls_ok st \<Longrightarrow> calls_ok (snd (isEnabled c st))"
  by (auto simp: calls_ok_def isEnabled_calls isEnabled_cache split: option.splits)

lemma calls_ok_filter: "calls_ok st \<Longrightarrow> calls_ok (snd (filter_isEnabled cs st))"
  by (induction cs arbitrary: st)
     (simp_all add: filter_isEnabled_snd calls_ok_isEnabled del: filter_isEnabled.simps(2))

lemma calls_ok_step:
  assumes "calls_ok st"
  shows "calls_ok (step a st)"
proof (cases a)
  case (Call_isEnabled c')
  then show ?thesis using assms by (simp add: calls_ok_isEnabled)
next
  case (Call_playSound s b)
  then show ?thesis using assms by (simp add: calls_ok_def playSound_frame)
next
  case (Call_playAudioCue c' b)
  then show ?thesis
    using calls_ok_isEnabled[OF assms, of c']
    by (simp add: calls_ok_def playAudioCue_snd playSound_frame)
next
  case (Call_playAudioCues cs)
  then show ?thesis
    using calls_ok_filter[OF assms, of cs]
    by (simp add: calls_ok_def playAudioCues_snd map_playSound_frame)
qed (use assms in \<open>simp_all add: calls_ok_def after_await_def Let_def split: option.splits\<close>)

lemma calls_ok_run: "calls_ok (run as (AudioCueService_new config sr))"
proof (rule run_invariant[where P = calls_ok])
  show "calls_ok (AudioCueService_new config sr)"
    by (simp add: calls_ok_def AudioCueService_new_def)
qed (rule calls_ok_step)

lemma audio_cue_enabled_other_key:
  assumes "key \<noteq> settingsKey C" and "key \<noteq> ''audioCues.enabled''"
  shows "audio_cue_enabled C (getValue(key := v)) sr = audio_cue_enabled C getValue sr"
  using assms by (simp add: audio_cue_enabled_eq Let_def)

section \<open>The cache of enablement observables\<close>

text \<open>
  C5. Take \<open>isEnabled(C)\<close> in any state a service can reach, and let anything follow:
  calls for this or other cues, changes of any setting, playbacks. A later
  \<open>isEnabled(C)\<close> returns the identical observable object and changes nothing (the
  factory does not run); the factory has run exactly once for \<open>C\<close>, and for every key
  once if the key is in the cache and never otherwise; the entry of \<open>C\<close> is still in
  the cache. A change of another setting (a key that is neither the setting of \<open>C\<close>
  nor \<open>audioCues.enabled\<close>) leaves the entry of \<open>C\<close> in place and the value of its
  observable as it was. For \<open>Cache.get\<close> with any factory: after one \<open>get\<close> of a
  key, a \<open>get\<close> of the same key returns the stored value and neither changes the
  map nor runs the factory.
\<close>

theorem isEnabled_is_cached:
  assumes "st0 = run as (AudioCueService_new config sr)"
    and "obs = fst (isEnabled C st0)"
    and "st1 = snd (isEnabled C st0)"
    and "st2 = run bs st1"
  shows "isEnabled C st2 = (obs, st2)
       \<and> count_list (getValueCalls st2) C = 1
       \<and> (\<forall>c. count_list (getValueCalls st2) c = (if isEnabledCache st2 c = None then 0 else 1))
       \<and> isEnabledCache st2 C = Some obs
       \<and> (\<forall>key v. key \<noteq> settingsKey C \<and> key \<noteq> ''audioCues.enabled'' \<longrightarrow>
            isEnabledCache (step (Update_configuration key v) st2) C = Some obs \<and>
            observable_get obs (step (Update_configuration key v) st2) = observable_get obs st2)
       \<and> Cache_get getValue k (fst (snd (Cache_get getValue k m s))) s'
           = (fst (Cache_get getValue k m s), fst (snd (Cache_get getValue k m s)), s')"
proof -
  have e1: "isEnabledCache st1 C = Some obs"
    using assms(2,3) by (simp add: isEnabled_result)
  then have e2: "isEnabledCache st2 C = Some obs"
    using assms(4) by (simp add: run_keeps)
  have "st2 = run (as @ Call_isEnabled C # bs) (AudioCueService_new config sr)"
    using assms(1,3,4) by (simp add: run_append run_Cons)
  then have ok: "calls_ok st2" and cok: "cache_ok st2"
    by (simp_all add: calls_ok_run cache_ok_run)
  have once: "\<forall>c. count_list (getValueCalls st2) c = (if isEnabledCache st2 c = None then 0 else 1)"
    using ok[unfolded calls_ok_def] .
  then have one: "count_list (getValueCalls st2) C = 1"
    using e2 by simp
  have "obs_cue obs = C"
    using cok e2 by (simp add: cache_ok_def)
  then have other: "\<forall>key v. key \<noteq> settingsKey C \<and> key \<noteq> ''audioCues.enabled'' \<longrightarrow>
            isEnabledCache (step (Update_configuration key v) st2) C = Some obs \<and>
            observable_get obs (step (Update_configuration key v) st2) = observable_get obs st2"
    using e2 by (simp add: observable_get_def audio_cue_enabled_other_key)
  have generic: "Cache_get getValue k (fst (snd (Cache_get getValue k m s))) s'
           = (fst (Cache_get getValue k m s), fst (snd (Cache_get getValue k m s)), s')"
    by (simp add: Cache_get_def split: option.splits prod.splits)
  show ?thesis
    using isEnabled_hit[OF e2] one once e2 other generic by blast
qed

text \<open>
  \<open>isEnabled(AudioCue.error)\<close> after \<open>isEnabled(AudioCue.warning)\<close>; then the
  setting of the warning cue changes, both cues are played, and
  \<open>isEnabled(AudioCue.error)\<close> is called again: the same object (the one with
  identity 5) comes back, and the factory has run once for each of the two cues.
\<close>

theorem isEnabled_is_cached_witness:
  "fst (isEnabled AudioCue_error
     (run [Update_configuration ''audioCues.lineHasWarning'' (JString ''on''),
           Call_playAudioCues [AudioCue_error, AudioCue_warning]]
        (snd (isEnabled AudioCue_error
           (run [Call_isEnabled AudioCue_warning] (AudioCueService_new (\<lambda>_. JUndefined) False))))))
   = \<lparr>obs_id = 5, obs_cue = AudioCue_error\<rparr>
 \<and> fst (isEnabled AudioCue_error
        (run [Call_isEnabled AudioCue_warning] (AudioCueService_new (\<lambda>_. JUndefined) False)))
   = \<lparr>obs_id = 5, obs_cue = AudioCue_error\<rparr>
 \<and> count_list (getValueCalls
     (run [Update_configuration ''audioCues.lineHasWarning'' (JString ''on''),
           Call_playAudioCues [AudioCue_error, AudioCue_warning]]
        (snd (isEnabled AudioCue_error
           (run [Call_isEnabled AudioCue_warning] (AudioCueService_new (\<lambda>_. JUndefined) False))))))
     AudioCue_error = 1"
proof -
  define st0 where "st0 = run [Call_isEnabled AudioCue_warning] (AudioCueService_new (\<lambda>_. JUndefined) False)"
  define st2 where "st2 = run [Update_configuration ''audioCues.lineHasWarning'' (JString ''on''),
           Call_playAudioCues [AudioCue_error, AudioCue_warning]] (snd (isEnabled AudioCue_error st0))"
  have first: "fst (isEnabled AudioCue_error st0) = \<lparr>obs_id = 5, obs_cue = AudioCue_error\<rparr>"
    by (simp add: st0_def exec_defs)
  have "fst (isEnabled AudioCue_error st2) = \<lparr>obs_id = 5, obs_cue = AudioCue_error\<rparr>
      \<and> count_list (getValueCalls st2) AudioCue_error = 1"
    using isEnabled_is_cached[OF st0_def refl refl st2_def,
        where getValue = isEnabledCache_getValue and k = AudioCue_error and m = Map.empty
          and s = st0 and s' = st0] first
    by simp
  then show ?thesis
    using first unfolding st0_def st2_def by simp
qed

subsection \<open>\<open>new Set(array)\<close>\<close>

lemma foldl_Set_add:
  "distinct acc \<Longrightarrow>
     distinct (foldl (\<lambda>s x. Set_add x s) acc xs) \<and>
     set (foldl (\<lambda>s x. Set_add x s) acc xs) = set acc \<union> set xs"
  by (induction xs arbitrary: acc) (auto simp: Set_add_def)

lemma Set_of_distinct: "distinct (Set_of xs)"
  and Set_of_set: "set (Set_of xs) = set xs"
  using foldl_Set_add[of "[]" xs] by (simp_all add: Set_of_def)

subsection \<open>\<open>playAudioCues\<close>\<close>

lemma filter_isEnabled_fst:
  "cache_ok st \<Longrightarrow>
     fst (filter_isEnabled cs st) =
       filter (\<lambda>c. fst (audio_cue_enabled c (configuration st) (screenReaderOptimized st))) cs"
proof (induction cs arbitrary: st)
  case Nil
  then show ?case by simp
next
  case (Cons c cs)
  have "fst (filter_isEnabled (c # cs) st) =
          (if fst (fst (isEnabled_get c st)) then [c] else []) @ fst (filter_isEnabled cs (snd (isEnabled c st)))"
    by (simp add: isEnabled_get_def split: prod.splits)
  then show ?case
    using Cons.IH[OF cache_ok_isEnabled[OF Cons.prems, of c]] isEnabled_get_value[OF Cons.prems, of c]
    by (simp add: isEnabled_frame)
qed

lemma map_playSound_fst_Cons:
  "fst (map_playSound (s # ss) st) =
     fst (playSound s False st) # fst (map_playSound ss (snd (playSound s False st)))"
  by (simp split: prod.splits)

lemma map_playSound_length: "length (fst (map_playSound ss st)) = length ss"
  by (induction ss arbitrary: st)
     (simp_all add: map_playSound_fst_Cons del: map_playSound.simps(2))

lemma map_playSound_mono: "length (playbacks st) \<le> length (playbacks (snd (map_playSound ss st)))"
  using map_playSound_appends[of ss st] by auto

text \<open>The results of the calls name exactly the playbacks that were added.\<close>

lemma playSound_not_started:
  "\<forall>i. fst (playSound s a st) \<noteq> Awaiting i \<Longrightarrow> playbacks (snd (playSound s a st)) = playbacks st"
  by (auto simp: playSound_def Let_def split: if_splits option.splits)

lemma map_playSound_indices:
  "{i. Awaiting i \<in> set (fst (map_playSound ss st))}
     = {length (playbacks st) ..< length (playbacks (snd (map_playSound ss st)))}"
proof (induction ss arbitrary: st)
  case Nil
  then show ?case by simp
next
  case (Cons s ss)
  let ?st1 = "snd (playSound s False st)"
  let ?st' = "snd (map_playSound ss ?st1)"
  have IH: "{i. Awaiting i \<in> set (fst (map_playSound ss ?st1))}
              = {length (playbacks ?st1) ..< length (playbacks ?st')}"
    by (rule Cons.IH)
  have split: "{i. Awaiting i \<in> set (fst (map_playSound (s # ss) st))}
      = {i. Awaiting i = fst (playSound s False st)} \<union> {i. Awaiting i \<in> set (fst (map_playSound ss ?st1))}"
    by (auto simp: map_playSound_fst_Cons simp del: map_playSound.simps(2))
  have snd': "snd (map_playSound (s # ss) st) = ?st'"
    by (rule map_playSound_snd)
  show ?case
  proof (cases "\<exists>i. fst (playSound s False st) = Awaiting i")
    case False
    then have "playbacks ?st1 = playbacks st"
      by (intro playSound_not_started) simp
    moreover have "\<And>i. Awaiting i \<noteq> fst (playSound s False st)"
      using False by metis
    then have "{i. Awaiting i = fst (playSound s False st)} = {}"
      by simp
    ultimately show ?thesis
      using IH unfolding split snd' by simp
  next
    case True
    then obtain i where Some: "fst (playSound s False st) = Awaiting i" by blast
    have i: "i = length (playbacks st)" and l: "length (playbacks ?st1) = Suc i"
      using playSound_started(1)[OF Some] playSound_started_length[OF Some] by simp_all
    have "Suc i \<le> length (playbacks ?st')"
      using map_playSound_mono[of ?st1 ss] l by simp
    then have "{i} \<union> {Suc i ..< length (playbacks ?st')} = {i ..< length (playbacks ?st')}"
      by auto
    moreover have "{j. Awaiting j = fst (playSound s False st)} = {i}"
      using Some by auto
    ultimately show ?thesis
      using IH unfolding split snd' l i by simp
  qed
qed

text \<open>With a volume that the element accepts, no call throws.\<close>

lemma playSound_no_throw:
  assumes "configuration st ''audioCues.volume'' \<noteq> JNumber NaN"
  shows "fst (playSound s a st) \<noteq> Threw e"
  using volume_accepted[OF assms] by (auto simp: playSound_def Let_def)

lemma map_playSound_no_throw:
  assumes "configuration st ''audioCues.volume'' \<noteq> JNumber NaN"
  shows "Threw e \<notin> set (fst (map_playSound ss st))"
  using assms
proof (induction ss arbitrary: st)
  case Nil
  then show ?case by simp
next
  case (Cons s ss)
  have "configuration (snd (playSound s False st)) ''audioCues.volume'' \<noteq> JNumber NaN"
    using Cons.prems by (simp add: playSound_frame)
  from Cons.IH[OF this] playSound_no_throw[OF Cons.prems, of s False e]
  show ?case
    by (simp add: map_playSound_fst_Cons del: map_playSound.simps(2))
qed

text \<open>The playbacks that were added are those of the sounds that were not registered.\<close>

lemma map_playSound_sounds:
  assumes "distinct ss" and "configuration st ''audioCues.volume'' \<noteq> JNumber NaN"
  shows "map pb_sound (drop (length (playbacks st)) (playbacks (snd (map_playSound ss st))))
           = filter (\<lambda>s. \<not> Set_has s (playingSounds st)) ss"
  using assms
proof (induction ss arbitrary: st)
  case Nil
  then show ?case by simp
next
  case (Cons s ss)
  let ?st1 = "snd (playSound s False st)"
  let ?st' = "snd (map_playSound ss ?st1)"
  from Cons.prems have d: "distinct ss" and ns: "s \<notin> set ss" by simp_all
  have v: "configuration st ''audioCues.volume'' \<noteq> JNumber NaN"
    and v1: "configuration ?st1 ''audioCues.volume'' \<noteq> JNumber NaN"
    using Cons.prems by (simp_all add: playSound_frame)
  have snd': "snd (map_playSound (s # ss) st) = ?st'"
    by (rule map_playSound_snd)
  have "\<And>x. x \<in> set ss \<Longrightarrow> Set_has x (playingSounds ?st1) = Set_has x (playingSounds st)"
    using ns by (auto simp: playSound_playingSounds Set_has_def Set_add_def)
  then have flt: "filter (\<lambda>x. \<not> Set_has x (playingSounds ?st1)) ss
           = filter (\<lambda>x. \<not> Set_has x (playingSounds st)) ss"
    by (intro filter_cong) simp_all
  have IH: "map pb_sound (drop (length (playbacks ?st1)) (playbacks ?st'))
           = filter (\<lambda>x. \<not> Set_has x (playingSounds st)) ss"
    using Cons.IH[OF d v1] flt by simp
  show ?case
  proof (cases "Set_has s (playingSounds st)")
    case True
    then have "?st1 = st"
      by (simp add: playSound_def)
    then show ?thesis
      using IH True unfolding snd' by simp
  next
    case False
    then have f: "fst (playSound s False st) = Awaiting (length (playbacks st))"
      by (intro playSound_starts[OF v]) simp
    let ?x = "playbacks ?st1 ! length (playbacks st)"
    have st1: "playbacks ?st1 = playbacks st @ [?x]" and x: "pb_sound ?x = s"
      using playSound_started(2,3)[OF f] by simp_all
    obtain ys where ys: "playbacks ?st' = playbacks ?st1 @ ys"
      using map_playSound_appends[of ss ?st1] by blast
    have l1: "length (playbacks ?st1) = Suc (length (playbacks st))"
      using playSound_started_length[OF f] by simp
    have "playbacks ?st' = playbacks st @ ?x # ys"
      using ys st1 by simp
    then have "drop (length (playbacks st)) (playbacks ?st') = ?x # ys"
      by simp
    moreover have "drop (length (playbacks ?st1)) (playbacks ?st') = ys"
      using ys by simp
    ultimately show ?thesis
      using IH False x unfolding snd' by simp
  qed
qed

lemma map_playSound_fresh:
  "\<forall>p\<in>set (drop (length (playbacks st)) (playbacks (snd (map_playSound ss st)))). fresh (clock st) p"
  using map_playSound_appends[of ss st] by auto

lemma map_playSound_take:
  "take (length (playbacks st)) (playbacks (snd (map_playSound ss st))) = playbacks st"
  using map_playSound_appends[of ss st] by auto

lemma Promise_all_Fulfilled:
  "(Promise_all rs st = Fulfilled) = (\<forall>r\<in>set rs. promise_of r st = Fulfilled)"
  by (induction rs) (auto split: promise_state.splits)

section \<open>Playing several cues\<close>

text \<open>
  C4, as the claim states it, fails in two ways. First: the cue \<open>AudioCue.error\<close> is
  enabled and its sound is playing from an earlier \<open>playSound\<close>; then
  \<open>playAudioCues([AudioCue.error])\<close> starts no playback at all, and its promise is
  fulfilled at once. Second: on a new service \<open>playAudioCues([AudioCue.error])\<close>
  starts the sound, and as soon as the playback has begun the promise of the call is
  fulfilled, while the sound is still playing and registered.
\<close>

theorem playAudioCues_counterexample:
  "fst (fst (isEnabled_get AudioCue_error
      (run [Call_playSound Sound_error False, PlayFulfilled 0]
         (AudioCueService_new ((\<lambda>_. JUndefined)(''audioCues.lineHasError'' := JString ''on'')) False))))
 \<and> fst (playAudioCues [AudioCue_error]
      (run [Call_playSound Sound_error False, PlayFulfilled 0]
         (AudioCueService_new ((\<lambda>_. JUndefined)(''audioCues.lineHasError'' := JString ''on'')) False)))
   = [Returned]
 \<and> playbacks (snd (playAudioCues [AudioCue_error]
      (run [Call_playSound Sound_error False, PlayFulfilled 0]
         (AudioCueService_new ((\<lambda>_. JUndefined)(''audioCues.lineHasError'' := JString ''on'')) False))))
   = playbacks (run [Call_playSound Sound_error False, PlayFulfilled 0]
         (AudioCueService_new ((\<lambda>_. JUndefined)(''audioCues.lineHasError'' := JString ''on'')) False))
 \<and> fst (playAudioCues [AudioCue_error]
         (AudioCueService_new ((\<lambda>_. JUndefined)(''audioCues.lineHasError'' := JString ''on'')) False))
   = [Awaiting 0]
 \<and> Promise_all [Awaiting 0]
      (run [Call_playAudioCues [AudioCue_error], PlayFulfilled 0]
         (AudioCueService_new ((\<lambda>_. JUndefined)(''audioCues.lineHasError'' := JString ''on'')) False))
   = Fulfilled
 \<and> map pb_media (playbacks
      (run [Call_playAudioCues [AudioCue_error], PlayFulfilled 0]
         (AudioCueService_new ((\<lambda>_. JUndefined)(''audioCues.lineHasError'' := JString ''on'')) False)))
   = [Playing]
 \<and> playingSounds
      (run [Call_playAudioCues [AudioCue_error], PlayFulfilled 0]
         (AudioCueService_new ((\<lambda>_. JUndefined)(''audioCues.lineHasError'' := JString ''on'')) False))
   = [Sound_error]"
  by (simp add: exec_defs)

text \<open>
  C4, amended. In any state a service can reach (with a configured volume that is not
  \<open>NaN\<close>, so that the element accepts it), \<open>playAudioCues(cues)\<close> calls
  \<open>playSound\<close> once for each distinct sound of the enabled cues of the list, in the
  order of first occurrence (\<open>sounds\<close>: no sound twice, the sounds of the enabled cues
  and no others). It leaves the playbacks that exist as they are and adds exactly one
  playback for each of these sounds that is not in \<open>playingSounds\<close> already, and none
  for those that are. All the added playbacks are started (loading, their calls pending)
  before any is awaited. The promise of the call is fulfilled exactly when the call of
  every added playback has returned, that is when each playback has begun, has failed or
  has timed out.
\<close>

theorem playAudioCues_starts_each_unregistered_sound_once:
  assumes "st = run as (AudioCueService_new config sr)"
    and "configuration st ''audioCues.volume'' \<noteq> JNumber NaN"
    and "enabled = filter (\<lambda>c. fst (audio_cue_enabled c (configuration st) (screenReaderOptimized st))) cues"
    and "sounds = Set_of (map sound enabled)"
    and "rs = fst (playAudioCues cues st)"
    and "st' = snd (playAudioCues cues st)"
    and "st2 = run evs st'"
  shows "distinct sounds \<and> set sounds = sound ` set enabled
       \<and> take (length (playbacks st)) (playbacks st') = playbacks st
       \<and> map pb_sound (drop (length (playbacks st)) (playbacks st'))
           = filter (\<lambda>s. \<not> Set_has s (playingSounds st)) sounds
       \<and> (\<forall>p\<in>set (drop (length (playbacks st)) (playbacks st')).
             pb_media p = Loading \<and> pb_promise p = Pending)
       \<and> length rs = length sounds
       \<and> ((Promise_all rs st2 = Fulfilled) =
            (\<forall>i. length (playbacks st) \<le> i \<and> i < length (playbacks st') \<longrightarrow>
                 pb_promise (playbacks st2 ! i) = Fulfilled))"
proof -
  let ?st1 = "snd (filter_isEnabled cues st)"
  have "cache_ok st"
    using assms(1) by (simp add: cache_ok_run)
  then have en: "fst (filter_isEnabled cues st) = enabled"
    using assms(3) by (simp add: filter_isEnabled_fst)
  have rs: "rs = fst (map_playSound sounds ?st1)"
    and st': "st' = snd (map_playSound sounds ?st1)"
    using assms(4-6) en by (simp_all add: playAudioCues_def split: prod.splits)
  have fr: "playbacks ?st1 = playbacks st" "playingSounds ?st1 = playingSounds st"
    by (simp_all add: filter_isEnabled_frame)
  have v1: "configuration ?st1 ''audioCues.volume'' \<noteq> JNumber NaN"
    using assms(2) by (simp add: filter_isEnabled_frame)
  have d: "distinct sounds" and s: "set sounds = sound ` set enabled"
    using assms(4) by (simp_all add: Set_of_distinct Set_of_set)
  have tk: "take (length (playbacks st)) (playbacks st') = playbacks st"
    using map_playSound_take[of ?st1 sounds] by (simp add: st' fr)
  have snds: "map pb_sound (drop (length (playbacks st)) (playbacks st'))
           = filter (\<lambda>s. \<not> Set_has s (playingSounds st)) sounds"
    using map_playSound_sounds[OF d v1] by (simp add: st' fr)
  have frs: "\<forall>p\<in>set (drop (length (playbacks st)) (playbacks st')).
             pb_media p = Loading \<and> pb_promise p = Pending"
    using map_playSound_fresh[of ?st1 sounds] by (simp add: st' fr fresh_def)
  have len: "length rs = length sounds"
    by (simp add: rs map_playSound_length)
  have idx: "{i. Awaiting i \<in> set rs} = {length (playbacks st) ..< length (playbacks st')}"
    using map_playSound_indices[of sounds ?st1] by (simp add: rs st' fr)
  have nt: "\<And>e. Threw e \<notin> set rs"
    using map_playSound_no_throw[OF v1] by (simp add: rs)
  have "(Promise_all rs st2 = Fulfilled) = (\<forall>r\<in>set rs. promise_of r st2 = Fulfilled)"
    by (rule Promise_all_Fulfilled)
  also have "\<dots> = (\<forall>i. Awaiting i \<in> set rs \<longrightarrow> pb_promise (playbacks st2 ! i) = Fulfilled)"
  proof
    assume "\<forall>r\<in>set rs. promise_of r st2 = Fulfilled"
    then show "\<forall>i. Awaiting i \<in> set rs \<longrightarrow> pb_promise (playbacks st2 ! i) = Fulfilled"
      by (auto simp: promise_of_def)
  next
    assume a: "\<forall>i. Awaiting i \<in> set rs \<longrightarrow> pb_promise (playbacks st2 ! i) = Fulfilled"
    show "\<forall>r\<in>set rs. promise_of r st2 = Fulfilled"
    proof
      fix r assume r: "r \<in> set rs"
      show "promise_of r st2 = Fulfilled"
      proof (cases r)
        case Returned
        then show ?thesis by (simp add: promise_of_def)
      next
        case (Awaiting i)
        then show ?thesis using a r by (simp add: promise_of_def)
      next
        case (Threw e)
        then show ?thesis using nt[of e] r by simp
      qed
    qed
  qed
  also have "\<dots> = (\<forall>i. i \<in> {i. Awaiting i \<in> set rs} \<longrightarrow> pb_promise (playbacks st2 ! i) = Fulfilled)"
    by simp
  also have "\<dots> = (\<forall>i. length (playbacks st) \<le> i \<and> i < length (playbacks st') \<longrightarrow>
                 pb_promise (playbacks st2 ! i) = Fulfilled)"
    unfolding idx by simp
  finally have all: "(Promise_all rs st2 = Fulfilled) =
            (\<forall>i. length (playbacks st) \<le> i \<and> i < length (playbacks st') \<longrightarrow>
                 pb_promise (playbacks st2 ! i) = Fulfilled)" .
  show ?thesis
    using d s tk snds frs len all by (intro conjI)
qed

text \<open>
  The cues \<open>error\<close>, \<open>noInlayHints\<close> and \<open>break\<close> are on, \<open>warning\<close> is not
  configured, and \<open>Sound.break\<close> is playing already. The cues \<open>error\<close> and
  \<open>noInlayHints\<close> share \<open>Sound.error\<close>: of the two distinct sounds of the enabled
  cues, one playback is added, for \<open>Sound.error\<close>.
\<close>

theorem playAudioCues_starts_each_unregistered_sound_once_witness:
  "map pb_sound (drop 1 (playbacks (snd (playAudioCues
      [AudioCue_error, AudioCue_warning, AudioCue_noInlayHints, AudioCue_break]
      (run [Call_playSound Sound_break False]
        (AudioCueService_new
          ((\<lambda>_. JUndefined)(''audioCues.lineHasError'' := JString ''on'',
                             ''audioCues.noInlayHints'' := JString ''on'',
                             ''audioCues.lineHasBreakpoint'' := JString ''on'')) False))))))
   = [Sound_error]
 \<and> length (fst (playAudioCues
      [AudioCue_error, AudioCue_warning, AudioCue_noInlayHints, AudioCue_break]
      (run [Call_playSound Sound_break False]
        (AudioCueService_new
          ((\<lambda>_. JUndefined)(''audioCues.lineHasError'' := JString ''on'',
                             ''audioCues.noInlayHints'' := JString ''on'',
                             ''audioCues.lineHasBreakpoint'' := JString ''on'')) False))))
   = 2"
proof -
  define st where "st = run [Call_playSound Sound_break False]
        (AudioCueService_new
          ((\<lambda>_. JUndefined)(''audioCues.lineHasError'' := JString ''on'',
                             ''audioCues.noInlayHints'' := JString ''on'',
                             ''audioCues.lineHasBreakpoint'' := JString ''on'')) False)"
  define cues where "cues = [AudioCue_error, AudioCue_warning, AudioCue_noInlayHints, AudioCue_break]"
  have n: "length (playbacks st) = 1" and ps: "playingSounds st = [Sound_break]"
    and v: "configuration st ''audioCues.volume'' \<noteq> JNumber NaN"
    by (simp_all add: st_def exec_defs)
  have en: "filter (\<lambda>c. fst (audio_cue_enabled c (configuration st) (screenReaderOptimized st))) cues
           = [AudioCue_error, AudioCue_noInlayHints, AudioCue_break]"
    by (simp add: st_def cues_def exec_defs)
  have sounds: "Set_of [Sound_error, Sound_error, Sound_break] = [Sound_error, Sound_break]"
    by (simp add: Set_of_def Set_add_def)
  have "map pb_sound (drop 1 (playbacks (snd (playAudioCues cues st)))) = [Sound_error]
      \<and> length (fst (playAudioCues cues st)) = 2"
    using playAudioCues_starts_each_unregistered_sound_once[OF st_def v refl refl refl refl refl,
        where cues = cues and evs = "[]"]
    by (simp add: n ps en sounds Set_has_def)
  then show ?thesis
    unfolding st_def cues_def .
qed

end
